(* ===== verification/Prelude.thy ===== *)
theory Prelude
  imports Main "HOL-Library.Word" "HOL-Library.Sublist" "HOL-Library.Option_ord"
begin

text \<open>
  Shared vocabulary of the development: the Go types the program uses, the collections
  of simplification rules the component theories fill, and the generic facts about maps
  and lists that several components need.

  A Go \<open>string\<close> is a sequence of bytes, which is what HOL's \<^typ>\<open>string\<close> (a list of 8-bit
  characters) is; a \<open>[]byte\<close> is a list of \<open>8 word\<close>; \<open>uint64\<close> is \<open>64 word\<close>, with its
  wrap-around. A nil slice and an empty one are both \<open>[]\<close>. A Go map is a partial function;
  the unspecified order in which \<open>range\<close> visits it is an explicit list argument of every
  definition that ranges over a map, and \<open>range_order\<close> says which lists are possible orders.
\<close>

section \<open>Types\<close>

type_synonym byte = "8 word"
type_synonym bytes = "byte list"
type_synonym uint64 = "64 word"
type_synonym addr = string
type_synonym key = string

text \<open>Times and durations are nanoseconds of the monotonic clock.\<close>

type_synonym time = int

abbreviation second :: time where
  "second \<equiv> 1000000000"

abbreviation hour :: time where
  "hour \<equiv> 3600000000000"

definition string_bytes :: "string \<Rightarrow> bytes" where
  "string_bytes s = map (\<lambda>c. of_nat (of_char c)) s"

definition bytes_string :: "bytes \<Rightarrow> string" where
  "bytes_string b = map (\<lambda>w. char_of (unat w)) b"

section \<open>Collections of rules\<close>

named_theorems go_defs \<open>definitions of the model's operations, unfolded together\<close>
named_theorems frame_simps \<open>fields an operation leaves alone\<close>
named_theorems view_simps \<open>what a component's lookup returns after an operation\<close>

section \<open>Range loops over Go maps\<close>

definition range_order :: "('k \<rightharpoonup> 'v) \<Rightarrow> 'k list \<Rightarrow> bool" where
  "range_order m ks \<longleftrightarrow> distinct ks \<and> set ks = dom m"

lemma range_order_finite: "range_order m ks \<Longrightarrow> finite (dom m)"
  unfolding range_order_def by (metis List.finite_set)

lemma range_order_exists: "finite (dom m) \<Longrightarrow> \<exists>ks. range_order m ks"
  unfolding range_order_def by (metis finite_distinct_list)

lemma range_order_mem: "range_order m ks \<Longrightarrow> k \<in> set ks \<longleftrightarrow> (\<exists>v. m k = Some v)"
  by (auto simp: range_order_def)

lemma range_order_empty [simp]: "range_order Map.empty ks \<longleftrightarrow> ks = []"
  by (auto simp: range_order_def)

lemma range_order_dom_eq: "dom m = dom m' \<Longrightarrow> range_order m ks \<longleftrightarrow> range_order m' ks"
  by (simp add: range_order_def)

section \<open>Lists\<close>

lemma fold_invariant_set:
  assumes "P s" and "\<And>x s. x \<in> set xs \<Longrightarrow> P s \<Longrightarrow> P (f x s)"
  shows "P (fold f xs s)"
  using assms by (induction xs arbitrary: s) auto

lemma fold_const_field:
  assumes "\<And>x s. g (f x s) = g s"
  shows "g (fold f xs s) = g s"
  using assms by (induction xs arbitrary: s) auto

lemma distinct_map_filter_length: "length (filter P xs) \<le> length xs"
  by (rule length_filter_le)

section \<open>Characters and bytes\<close>

lemma bytes_string_string_bytes [simp]: "bytes_string (string_bytes s) = s"
  by (induction s) (simp_all add: bytes_string_def string_bytes_def unat_of_nat)

lemma length_string_bytes [simp]: "length (string_bytes s) = length s"
  by (simp add: string_bytes_def)

lemma string_bytes_inject: "string_bytes s = string_bytes t \<longleftrightarrow> s = t"
  by (metis bytes_string_string_bytes)

section \<open>Codecs\<close>

text \<open>
  What every pair of an encoder and a decoder of the program promises: decoding gives back
  what was encoded, for the values the encoding is meant for. An encoder with this law never
  sends two such values to the same text.
\<close>

locale codec =
  fixes enc :: "'a \<Rightarrow> 'b"
    and dec :: "'b \<Rightarrow> 'a option"
    and good :: "'a \<Rightarrow> bool"
  assumes dec_enc: "good x \<Longrightarrow> dec (enc x) = Some x"
begin

lemma enc_inject: "good x \<Longrightarrow> good y \<Longrightarrow> enc x = enc y \<longleftrightarrow> x = y"
  using dec_enc by (metis option.inject)

lemma enc_inj_on: "inj_on enc {x. good x}"
  by (rule inj_onI) (simp add: enc_inject)

lemma enc_map_inject:
  "\<forall>x \<in> set xs. good x \<Longrightarrow> \<forall>y \<in> set ys. good y \<Longrightarrow> map enc xs = map enc ys \<longleftrightarrow> xs = ys"
  using enc_inj_on by (subst inj_on_map_eq_map) (auto simp: inj_on_def)

end

end
