(* ===== verification/Aes_Gcm.thy ===== *)
theory Aes_Gcm
  imports Prelude
begin

unbundle bit_operations_syntax

text \<open>
  AES and GCM as \<open>crypto/aes\<close> and \<open>crypto/cipher\<close> provide them to \<open>pkg/crypto/vault.go\<close>: the
  block cipher of FIPS 197 in the encryption direction, which is all that GCM uses, and the
  mode of NIST SP 800-38D with 12-byte nonces, 16-byte tags and no additional data.
\<close>

section \<open>The block cipher\<close>

text \<open>Multiplication in GF(2^8).\<close>

definition xtime :: "byte \<Rightarrow> byte" where
  "xtime b = (if bit b 7 then push_bit 1 b XOR 0x1B else push_bit 1 b)"

fun gmul :: "nat \<Rightarrow> byte \<Rightarrow> byte \<Rightarrow> byte" where
  "gmul 0 a b = 0"
| "gmul (Suc n) a b = (if bit b 0 then a else 0) XOR gmul n (xtime a) (drop_bit 1 b)"

definition gf_mul :: "byte \<Rightarrow> byte \<Rightarrow> byte" where
  "gf_mul a b = gmul 8 a b"

text \<open>The inverse of \<open>a\<close> is its 254th power.\<close>

definition gf_inv :: "byte \<Rightarrow> byte" where
  "gf_inv a = (let a2 = gf_mul a a; a4 = gf_mul a2 a2; a8 = gf_mul a4 a4; a16 = gf_mul a8 a8;
       a32 = gf_mul a16 a16; a64 = gf_mul a32 a32; a128 = gf_mul a64 a64
     in gf_mul a128 (gf_mul a64 (gf_mul a32 (gf_mul a16 (gf_mul a8 (gf_mul a4 a2))))))"

definition rotl8 :: "nat \<Rightarrow> byte \<Rightarrow> byte" where
  "rotl8 n b = push_bit n b OR drop_bit (8 - n) b"

definition sbox :: "byte \<Rightarrow> byte" where
  "sbox a = (let b = gf_inv a in b XOR rotl8 1 b XOR rotl8 2 b XOR rotl8 3 b XOR rotl8 4 b XOR 0x63)"

definition xor_bytes :: "bytes \<Rightarrow> bytes \<Rightarrow> bytes" where
  "xor_bytes a b = map2 (XOR) a b"

text \<open>The key schedule, as the list of the words so far in reverse order.\<close>

fun rcon :: "nat \<Rightarrow> byte" where
  "rcon 0 = 1"
| "rcon (Suc n) = xtime (rcon n)"

definition sub_word :: "bytes \<Rightarrow> bytes" where
  "sub_word w = map sbox w"

definition schedule_word :: "nat \<Rightarrow> nat \<Rightarrow> bytes list \<Rightarrow> bytes" where
  "schedule_word nk i ws =
    (let temp = hd ws;
         temp = (if i mod nk = 0 then xor_bytes (sub_word (rotate1 temp)) [rcon (i div nk - 1), 0, 0, 0]
                 else if nk > 6 \<and> i mod nk = 4 then sub_word temp else temp)
     in xor_bytes (ws ! (nk - 1)) temp)"

definition key_words :: "bytes \<Rightarrow> bytes list" where
  "key_words k = map (\<lambda>i. take 4 (drop (4 * i) k)) [0..<length k div 4]"

definition expand_key :: "bytes \<Rightarrow> bytes list" where
  "expand_key k =
    (let nk = length k div 4
     in rev (fold (\<lambda>i ws. schedule_word nk i ws # ws) [nk..<4 * (nk + 7)] (rev (key_words k))))"

definition round_key :: "bytes list \<Rightarrow> nat \<Rightarrow> bytes" where
  "round_key ws r = concat (map (\<lambda>i. ws ! (4 * r + i)) [0..<4])"

text \<open>The state is the block, column by column.\<close>

definition shift_rows :: "bytes \<Rightarrow> bytes" where
  "shift_rows s = map (\<lambda>i. s ! ((i + 4 * (i mod 4)) mod 16)) [0..<16]"

definition mix_column :: "byte \<Rightarrow> byte \<Rightarrow> byte \<Rightarrow> byte \<Rightarrow> bytes" where
  "mix_column a b c d =
    [gf_mul 2 a XOR gf_mul 3 b XOR c XOR d, a XOR gf_mul 2 b XOR gf_mul 3 c XOR d,
     a XOR b XOR gf_mul 2 c XOR gf_mul 3 d, gf_mul 3 a XOR b XOR c XOR gf_mul 2 d]"

definition mix_columns :: "bytes \<Rightarrow> bytes" where
  "mix_columns s = concat (map (\<lambda>c. mix_column (s ! (4 * c)) (s ! (4 * c + 1)) (s ! (4 * c + 2)) (s ! (4 * c + 3))) [0..<4])"

definition aes_encrypt :: "bytes \<Rightarrow> bytes \<Rightarrow> bytes" where
  "aes_encrypt k block =
    (let ws = expand_key k;
         nr = length k div 4 + 6;
         s = xor_bytes block (round_key ws 0);
         s = fold (\<lambda>r s. xor_bytes (mix_columns (shift_rows (map sbox s))) (round_key ws r)) [1..<nr] s
     in xor_bytes (shift_rows (map sbox s)) (round_key ws nr))"

section \<open>Counter mode and the tag\<close>

type_synonym block = "128 word"

definition block_of :: "bytes \<Rightarrow> block" where
  "block_of bs = fold (\<lambda>b acc. push_bit 8 acc OR ucast b) (bs @ replicate (16 - length bs) 0) 0"

definition bytes_of_block :: "block \<Rightarrow> bytes" where
  "bytes_of_block x = map (\<lambda>i. ucast (drop_bit (8 * (15 - i)) x)) [0..<16]"

text \<open>Multiplication in GF(2^128), over the bits of the first factor from the left.\<close>

fun ghash_mul_loop :: "nat \<Rightarrow> block \<Rightarrow> block \<Rightarrow> block \<Rightarrow> block" where
  "ghash_mul_loop 0 x v z = z"
| "ghash_mul_loop (Suc n) x v z =
    ghash_mul_loop n x
      (if bit v 0 then drop_bit 1 v XOR push_bit 120 0xE1 else drop_bit 1 v)
      (if bit x n then z XOR v else z)"

definition ghash_mul :: "block \<Rightarrow> block \<Rightarrow> block" where
  "ghash_mul x y = ghash_mul_loop 128 x y 0"

fun chunks16 :: "nat \<Rightarrow> bytes \<Rightarrow> bytes list" where
  "chunks16 0 bs = []"
| "chunks16 (Suc n) bs = take 16 bs # chunks16 n (drop 16 bs)"

definition blocks_in :: "bytes \<Rightarrow> nat" where
  "blocks_in bs = (length bs + 15) div 16"

definition ghash :: "block \<Rightarrow> bytes \<Rightarrow> block" where
  "ghash h c =
    (let y = fold (\<lambda>b y. ghash_mul (y XOR block_of b) h) (chunks16 (blocks_in c) c) 0
     in ghash_mul (y XOR of_nat (8 * length c)) h)"

text \<open>The \<open>i\<close>-th counter block: the nonce followed by a 32-bit counter that wraps around.\<close>

definition counter_block :: "bytes \<Rightarrow> nat \<Rightarrow> bytes" where
  "counter_block nonce i =
    (let c = (of_nat i :: 32 word)
     in nonce @ [ucast (drop_bit 24 c), ucast (drop_bit 16 c), ucast (drop_bit 8 c), ucast c])"

definition key_stream :: "bytes \<Rightarrow> bytes \<Rightarrow> nat \<Rightarrow> bytes" where
  "key_stream k nonce n = concat (map (\<lambda>i. aes_encrypt k (counter_block nonce (i + 2))) [0..<n])"

definition ctr_crypt :: "bytes \<Rightarrow> bytes \<Rightarrow> bytes \<Rightarrow> bytes" where
  "ctr_crypt k nonce p = xor_bytes p (key_stream k nonce (blocks_in p))"

definition gcm_tag :: "bytes \<Rightarrow> bytes \<Rightarrow> bytes \<Rightarrow> bytes" where
  "gcm_tag k nonce c =
    xor_bytes (bytes_of_block (ghash (block_of (aes_encrypt k (replicate 16 0))) c))
      (aes_encrypt k (counter_block nonce 1))"

definition gcm_seal :: "bytes \<Rightarrow> bytes \<Rightarrow> bytes \<Rightarrow> bytes" where
  "gcm_seal k nonce p = (let c = ctr_crypt k nonce p in c @ gcm_tag k nonce c)"

definition gcm_open :: "bytes \<Rightarrow> bytes \<Rightarrow> bytes \<Rightarrow> bytes option" where
  "gcm_open k nonce ct =
    (if length ct < 16 then None
     else
       let c = take (length ct - 16) ct; tag = drop (length ct - 16) ct
       in if gcm_tag k nonce c = tag then Some (ctr_crypt k nonce c) else None)"

section \<open>Lemmas\<close>

lemma length_xor_bytes [simp]: "length (xor_bytes a b) = min (length a) (length b)"
  by (simp add: xor_bytes_def)

lemma xor_bytes_twice: "length a \<le> length s \<Longrightarrow> xor_bytes (xor_bytes a s) s = a"
  by (rule nth_equalityI) (simp_all add: xor_bytes_def min_def xor.assoc)

lemma length_shift_rows [simp]: "length (shift_rows s) = 16"
  by (simp add: shift_rows_def)

lemma length_words_schedule:
  assumes "\<forall>w \<in> set ws. length w = 4" "0 < nk" "nk \<le> length ws"
  shows "length (schedule_word nk i ws) = 4"
proof -
  have "ws \<noteq> []" using assms(2,3) by auto
  then have "length (hd ws) = 4" using assms(1) by simp
  moreover have "length (ws ! (nk - 1)) = 4" using assms by auto
  ultimately show ?thesis by (simp add: schedule_word_def sub_word_def Let_def)
qed

lemma expand_loop:
  "(\<forall>w \<in> set ws. length w = 4) \<Longrightarrow> 0 < nk \<Longrightarrow> nk \<le> length ws
    \<Longrightarrow> length (fold (\<lambda>i ws. schedule_word nk i ws # ws) is ws) = length ws + length is
      \<and> (\<forall>w \<in> set (fold (\<lambda>i ws. schedule_word nk i ws # ws) is ws). length w = 4)"
proof (induction "is" arbitrary: ws)
  case (Cons i js)
  have len: "length (schedule_word nk i ws) = 4" by (rule length_words_schedule [OF Cons.prems])
  let ?ws = "schedule_word nk i ws # ws"
  have "length (fold (\<lambda>i ws. schedule_word nk i ws # ws) js ?ws) = length ?ws + length js
      \<and> (\<forall>w \<in> set (fold (\<lambda>i ws. schedule_word nk i ws # ws) js ?ws). length w = 4)"
    using Cons.prems len by (intro Cons.IH) simp_all
  then show ?case by (simp only: fold_simps list.size) simp
qed simp

definition key_size_ok :: "bytes \<Rightarrow> bool" where
  "key_size_ok k \<longleftrightarrow> length k \<in> {16, 24, 32}"

lemma expand_key_shape:
  assumes "key_size_ok k"
  shows "length (expand_key k) = 4 * (length k div 4 + 7) \<and> (\<forall>w \<in> set (expand_key k). length w = 4)"
proof -
  let ?nk = "length k div 4"
  have nk: "0 < ?nk" "4 * ?nk = length k" using assms by (auto simp: key_size_ok_def)
  let ?ws = "rev (key_words k)"
  have w4: "\<forall>w \<in> set ?ws. length w = 4" using nk(2) by (auto simp: key_words_def)
  have len: "length ?ws = ?nk" by (simp add: key_words_def)
  have loop: "length (fold (\<lambda>i ws. schedule_word ?nk i ws # ws) [?nk..<4 * (?nk + 7)] ?ws)
        = length ?ws + length [?nk..<4 * (?nk + 7)]
      \<and> (\<forall>w \<in> set (fold (\<lambda>i ws. schedule_word ?nk i ws # ws) [?nk..<4 * (?nk + 7)] ?ws). length w = 4)"
    by (rule expand_loop [OF w4 nk(1)]) (simp only: len)
  have sum: "length ?ws + length [?nk..<4 * (?nk + 7)] = 4 * (?nk + 7)"
    unfolding len length_upt by simp
  show ?thesis unfolding expand_key_def Let_def set_rev length_rev using loop unfolding sum .
qed

lemma length_concat_const: "(\<And>x. x \<in> set xs \<Longrightarrow> length (f x) = n) \<Longrightarrow> length (concat (map f xs)) = n * length xs"
  by (induction xs) auto

lemma length_round_key:
  assumes "key_size_ok k" "r \<le> length k div 4 + 6"
  shows "length (round_key (expand_key k) r) = 16"
proof -
  have "length (expand_key k ! (4 * r + i)) = 4" if "i < 4" for i
    using expand_key_shape [OF assms(1)] assms(2) that by (auto intro: nth_mem)
  then show ?thesis unfolding round_key_def by (subst length_concat_const [where n = 4]) simp_all
qed

lemma length_aes_encrypt [simp]: "key_size_ok k \<Longrightarrow> length (aes_encrypt k b) = 16"
  using length_round_key [of k "length k div 4 + 6"] by (simp add: aes_encrypt_def Let_def)

lemma length_key_stream: "key_size_ok k \<Longrightarrow> length (key_stream k nonce n) = 16 * n"
  unfolding key_stream_def by (subst length_concat_const [where n = 16]) simp_all

lemma blocks_in_enough: "length p \<le> 16 * blocks_in p"
  unfolding blocks_in_def by presburger

lemma length_ctr_crypt [simp]: "key_size_ok k \<Longrightarrow> length (ctr_crypt k nonce p) = length p"
  using blocks_in_enough [of p] by (simp add: ctr_crypt_def length_key_stream)

lemma blocks_in_cong: "length p = length q \<Longrightarrow> blocks_in p = blocks_in q"
  by (simp add: blocks_in_def)

lemma ctr_crypt_twice: "key_size_ok k \<Longrightarrow> ctr_crypt k nonce (ctr_crypt k nonce p) = p"
  using blocks_in_enough [of p] blocks_in_cong [OF length_ctr_crypt [of k nonce p]]
  by (simp add: ctr_crypt_def [of k nonce "ctr_crypt k nonce p"])
     (simp add: ctr_crypt_def xor_bytes_twice length_key_stream)

lemma length_gcm_tag [simp]: "key_size_ok k \<Longrightarrow> length (gcm_tag k nonce c) = 16"
  by (simp add: gcm_tag_def bytes_of_block_def)

lemma gcm_open_seal: "key_size_ok k \<Longrightarrow> gcm_open k nonce (gcm_seal k nonce p) = Some p"
  by (simp add: gcm_open_def gcm_seal_def Let_def ctr_crypt_twice)

text \<open>What opens was sealed with the same key and nonce.\<close>

lemma gcm_open_iff: "key_size_ok k \<Longrightarrow> gcm_open k nonce ct = Some p \<longleftrightarrow> ct = gcm_seal k nonce p"
proof
  assume k: "key_size_ok k" and "gcm_open k nonce ct = Some p"
  then have "gcm_tag k nonce (take (length ct - 16) ct) = drop (length ct - 16) ct"
    "p = ctr_crypt k nonce (take (length ct - 16) ct)"
    by (auto simp: gcm_open_def Let_def split: if_splits)
  then show "ct = gcm_seal k nonce p"
    by (simp add: gcm_seal_def ctr_crypt_twice [OF k])
qed (simp add: gcm_open_seal)

lemma length_gcm_seal: "key_size_ok k \<Longrightarrow> length (gcm_seal k nonce p) = length p + 16"
  by (simp add: gcm_seal_def Let_def)

interpretation gcm: codec "gcm_seal k nonce" "gcm_open k nonce" "\<lambda>_. key_size_ok k" for k nonce
  by unfold_locales (rule gcm_open_seal)

end
