(* ===== verification/Crypto.thy ===== *)
theory Crypto
  imports Aes_Gcm
begin

text \<open>
  \<open>pkg/crypto\<close>: encryption of vault entries (\<open>vault.go\<close>), password hashes (\<open>hash.go\<close>) and key
  derivation. The random source is an argument: an error or the bytes it delivers. bcrypt and
  PBKDF2 come from \<open>golang.org/x/crypto\<close> and are parameters, bundled in a \<open>kdf\<close>.
\<close>

section \<open>Definitions\<close>

record kdf =
  kdf_bcrypt :: "bytes \<Rightarrow> bytes \<Rightarrow> nat \<Rightarrow> string + bytes"
  kdf_check :: "bytes \<Rightarrow> bytes \<Rightarrow> bool"
  kdf_pbkdf2 :: "bytes \<Rightarrow> bytes \<Rightarrow> nat \<Rightarrow> nat \<Rightarrow> bytes"

text \<open>\<open>bcrypt.DefaultCost\<close> is 10; the first argument of \<open>kdf_bcrypt\<close> is the randomness it draws.\<close>

definition hash_password :: "kdf \<Rightarrow> bytes \<Rightarrow> string \<Rightarrow> string + bytes" where
  "hash_password K rnd password = kdf_bcrypt K rnd (string_bytes password) 10"

definition check_password :: "kdf \<Rightarrow> bytes \<Rightarrow> string \<Rightarrow> bool" where
  "check_password K h password = kdf_check K h (string_bytes password)"

definition derive_key :: "kdf \<Rightarrow> string \<Rightarrow> bytes \<Rightarrow> bytes" where
  "derive_key K masterPassword salt = kdf_pbkdf2 K (string_bytes masterPassword) salt 100000 32"

definition generate_salt :: "string + bytes \<Rightarrow> string + bytes" where
  "generate_salt rnd = (case rnd of Inl err \<Rightarrow> Inl err | Inr salt \<Rightarrow> Inr (take 16 salt))"

definition encrypt :: "string + bytes \<Rightarrow> bytes \<Rightarrow> bytes \<Rightarrow> string + bytes" where
  "encrypt rnd key plaintext =
    (if \<not> key_size_ok key then Inl ''aes cipher: crypto/aes: invalid key size''
     else
       (case rnd of
          Inl err \<Rightarrow> Inl err
        | Inr r \<Rightarrow> let nonce = take 12 r in Inr (nonce @ gcm_seal key nonce plaintext)))"

definition decrypt :: "bytes \<Rightarrow> bytes \<Rightarrow> string + bytes" where
  "decrypt key ciphertext =
    (if \<not> key_size_ok key then Inl ''crypto/aes: invalid key size''
     else
       let nonceSize = 12 in
       if length ciphertext < nonceSize then Inl ''ciphertext too short''
       else
         (case gcm_open key (take nonceSize ciphertext) (drop nonceSize ciphertext) of
            None \<Rightarrow> Inl ''cipher: message authentication failed''
          | Some p \<Rightarrow> Inr p))"

section \<open>What the third-party functions promise\<close>

text \<open>
  A hash bcrypt made for a password is accepted for it, and PBKDF2 delivers as many bytes as
  it is asked for.
\<close>

definition kdf_ok :: "kdf \<Rightarrow> bool" where
  "kdf_ok K \<longleftrightarrow> (\<forall>r p n h. kdf_bcrypt K r p n = Inr h \<longrightarrow> kdf_check K h p)
     \<and> (\<forall>p s i n. length (kdf_pbkdf2 K p s i n) = n)"

text \<open>A stand-in that fulfils this, for concrete examples.\<close>

definition toy_kdf :: kdf where
  "toy_kdf = \<lparr>kdf_bcrypt = (\<lambda>r p n. if length p \<le> 72 then Inr (r @ p) else Inl ''bcrypt: password length exceeds 72 bytes''),
     kdf_check = (\<lambda>h p. drop (length h - length p) h = p),
     kdf_pbkdf2 = (\<lambda>p s i n. take n (s @ p @ replicate n 0))\<rparr>"

lemma toy_kdf_ok: "kdf_ok toy_kdf"
  by (auto simp: kdf_ok_def toy_kdf_def)

lemma derive_key_size: "kdf_ok K \<Longrightarrow> key_size_ok (derive_key K p s)"
  by (simp add: kdf_ok_def derive_key_def key_size_ok_def)

lemma check_hash_password: "kdf_ok K \<Longrightarrow> hash_password K r p = Inr h \<Longrightarrow> check_password K h p"
  by (auto simp: kdf_ok_def hash_password_def check_password_def)

section \<open>Encryption and decryption\<close>

lemma decrypt_encrypt:
  assumes "encrypt (Inr r) key p = Inr c" "12 \<le> length r"
  shows "decrypt key c = Inr p"
  using assms by (auto simp: encrypt_def decrypt_def Let_def gcm_open_seal split: if_splits)

lemma encrypt_ok: "key_size_ok key \<Longrightarrow> encrypt (Inr r) key p = Inr (take 12 r @ gcm_seal key (take 12 r) p)"
  by (simp add: encrypt_def Let_def)

text \<open>Under one key and one draw of the nonce, the pair is a codec.\<close>

interpretation sealed: codec
  "\<lambda>p. case encrypt (Inr nonce) key p of Inl _ \<Rightarrow> [] | Inr c \<Rightarrow> c"
  "\<lambda>c. case decrypt key c of Inl _ \<Rightarrow> None | Inr p \<Rightarrow> Some p"
  "\<lambda>_. key_size_ok key \<and> 12 \<le> length nonce"
  for key nonce
  by unfold_locales (auto simp: encrypt_ok decrypt_encrypt [OF encrypt_ok])

section \<open>Properties\<close>

text \<open>Claim C16. Decryption with a key of AES size accepts exactly the texts that encryption with the same key
  produces for some nonce, and gives back the plaintext; anything else, in particular a text
  shorter than a nonce and a tag, is an error.\<close>

theorem decrypt_accepts_exactly_encryptions:
  assumes "key_size_ok key"
  shows "(decrypt key c = Inr p \<longleftrightarrow> (\<exists>nonce. length nonce = 12 \<and> encrypt (Inr nonce) key p = Inr c))
    \<and> (decrypt key c = Inr p \<longrightarrow> length c = 12 + length p + 16)
    \<and> (length c < 28 \<longrightarrow> (\<exists>err. decrypt key c = Inl err))"
proof -
  have iff: "decrypt key c = Inr p \<longleftrightarrow> (\<exists>nonce. length nonce = 12 \<and> encrypt (Inr nonce) key p = Inr c)" for p
  proof
    assume d: "decrypt key c = Inr p"
    then have len: "12 \<le> length c" and op: "gcm_open key (take 12 c) (drop 12 c) = Some p"
      using assms by (auto simp: decrypt_def Let_def split: if_splits option.splits)
    then have "c = take 12 c @ gcm_seal key (take 12 c) p"
      by (metis append_take_drop_id gcm_open_iff [OF assms])
    with len show "\<exists>nonce. length nonce = 12 \<and> encrypt (Inr nonce) key p = Inr c"
      by (intro exI [of _ "take 12 c"]) (simp add: encrypt_ok [OF assms])
  next
    assume "\<exists>nonce. length nonce = 12 \<and> encrypt (Inr nonce) key p = Inr c"
    then show "decrypt key c = Inr p" using decrypt_encrypt by force
  qed
  have len: "length c = 12 + length p + 16" if "decrypt key c = Inr p" for p
    using that unfolding iff by (auto simp: encrypt_ok [OF assms] length_gcm_seal [OF assms])
  have "\<exists>err. decrypt key c = Inl err" if "length c < 28"
    using that len by (cases "decrypt key c") auto
  with iff len show ?thesis by blast
qed

theorem decrypt_accepts_exactly_encryptions_witness:
  "\<exists>err. decrypt (replicate 32 7) (replicate 27 0) = Inl err"
  using decrypt_accepts_exactly_encryptions [of "replicate 32 7" "replicate 27 0"] by (simp add: key_size_ok_def)

end
