(* ===== verification/Go_Text.thy ===== *)
theory Go_Text
  imports Prelude
begin

text \<open>
  The text operations of Go that the program uses: the runes a \<open>range\<close> over a string visits
  (UTF-8 decoding, an invalid byte being the replacement rune of width 1), the encoding of a
  rune, the \<open>%02x\<close> and \<open>%d\<close> verbs of \<open>fmt\<close>, \<open>strconv.ParseUint\<close> on two hexadecimal digits, and
  \<open>strings.HasPrefix\<close> and \<open>TrimPrefix\<close>. Bytes are numbers below 256 here.
\<close>

section \<open>UTF-8\<close>

definition rune_error :: nat where
  "rune_error = 65533"

definition cont :: "nat \<Rightarrow> bool" where
  "cont b \<longleftrightarrow> 128 \<le> b \<and> b \<le> 191"

text \<open>
  \<open>decode_rune bs\<close> is \<open>utf8.DecodeRuneInString\<close> on a non-empty string: the rune and its width.
  The accepted ranges of the second byte exclude overlong forms and surrogates.
\<close>

fun decode_rune :: "nat list \<Rightarrow> nat \<times> nat" where
  "decode_rune [] = (rune_error, 0)"
| "decode_rune (b # bs) =
    (if b < 128 then (b, 1)
     else if 194 \<le> b \<and> b \<le> 223 then
       (case bs of
          c # _ \<Rightarrow> if cont c then ((b - 192) * 64 + (c - 128), 2) else (rune_error, 1)
        | _ \<Rightarrow> (rune_error, 1))
     else if 224 \<le> b \<and> b \<le> 239 then
       (case bs of
          c # d # _ \<Rightarrow>
            if (if b = 224 then 160 else 128) \<le> c \<and> c \<le> (if b = 237 then 159 else 191) \<and> cont d
            then ((b - 224) * 4096 + (c - 128) * 64 + (d - 128), 3) else (rune_error, 1)
        | _ \<Rightarrow> (rune_error, 1))
     else if 240 \<le> b \<and> b \<le> 244 then
       (case bs of
          c # d # e # _ \<Rightarrow>
            if (if b = 240 then 144 else 128) \<le> c \<and> c \<le> (if b = 244 then 143 else 191)
               \<and> cont d \<and> cont e
            then ((b - 240) * 262144 + (c - 128) * 4096 + (d - 128) * 64 + (e - 128), 4)
            else (rune_error, 1)
        | _ \<Rightarrow> (rune_error, 1))
     else (rune_error, 1))"

lemma decode_rune_ascii [simp]: "b < 128 \<Longrightarrow> decode_rune (b # bs) = (b, 1)"
  by simp

function rune_list :: "nat list \<Rightarrow> nat list" where
  "rune_list [] = []"
| "rune_list (b # bs) =
    fst (decode_rune (b # bs)) # rune_list (drop (snd (decode_rune (b # bs)) - 1) bs)"
  by pat_completeness auto
termination
  by (relation "measure length") auto

declare decode_rune.simps(2) [simp del]

definition runes :: "string \<Rightarrow> nat list" where
  "runes s = rune_list (map of_char s)"

definition ascii :: "string \<Rightarrow> bool" where
  "ascii s \<longleftrightarrow> (\<forall>c \<in> set s. (of_char c :: nat) < 128)"

lemma rune_list_ascii: "\<forall>b \<in> set bs. b < 128 \<Longrightarrow> rune_list bs = bs"
  by (induction bs) auto

lemma runes_ascii: "ascii s \<Longrightarrow> runes s = map of_char s"
  unfolding runes_def ascii_def by (rule rune_list_ascii) auto

lemma ascii_simps [simp]:
  "ascii []" "ascii (c # s) \<longleftrightarrow> (of_char c :: nat) < 128 \<and> ascii s"
  "ascii (s @ t) \<longleftrightarrow> ascii s \<and> ascii t"
  by (auto simp: ascii_def)

text \<open>\<open>utf8.AppendRune\<close>: surrogates and numbers beyond the last code point give U+FFFD.\<close>

definition encode_rune :: "nat \<Rightarrow> nat list" where
  "encode_rune r =
    (let r = (if 1114111 < r \<or> (55296 \<le> r \<and> r \<le> 57343) then rune_error else r) in
     if r < 128 then [r]
     else if r < 2048 then [192 + r div 64, 128 + r mod 64]
     else if r < 65536 then [224 + r div 4096, 128 + r div 64 mod 64, 128 + r mod 64]
     else [240 + r div 262144, 128 + r div 4096 mod 64, 128 + r div 64 mod 64, 128 + r mod 64])"

text \<open>What a string becomes when it goes through JSON: each invalid byte is U+FFFD.\<close>

definition coerce_utf8 :: "string \<Rightarrow> string" where
  "coerce_utf8 s = map char_of (concat (map encode_rune (runes s)))"

lemma coerce_utf8_ascii: "ascii s \<Longrightarrow> coerce_utf8 s = s"
  by (induction s) (auto simp: coerce_utf8_def runes_ascii encode_rune_def Let_def)

section \<open>Hexadecimal\<close>

lemma char_eq_char_of: "c = char_of n \<longleftrightarrow> take_bit 8 n = (of_char c :: nat)"
  using char_of_eq_iff [of n c] by auto

definition hex_digit :: "nat \<Rightarrow> char" where
  "hex_digit n = (if n < 10 then char_of (48 + n) else char_of (87 + n))"

fun hex_digits :: "nat \<Rightarrow> string" where
  "hex_digits n = (if n < 16 then [hex_digit n] else hex_digits (n div 16) @ [hex_digit (n mod 16)])"

declare hex_digits.simps [simp del]

text \<open>The verb \<open>%02x\<close>: lower case, at least two digits.\<close>

definition hex02 :: "nat \<Rightarrow> string" where
  "hex02 n = (let h = hex_digits n in if length h < 2 then hex_digit 0 # h else h)"

text \<open>One digit as \<open>strconv.ParseUint\<close> reads it with base 16.\<close>

definition hex_value :: "char \<Rightarrow> nat option" where
  "hex_value c =
    (let n = of_char c in
     if 48 \<le> n \<and> n \<le> 57 then Some (n - 48)
     else if 97 \<le> n \<and> n \<le> 102 then Some (n - 87)
     else if 65 \<le> n \<and> n \<le> 70 then Some (n - 55)
     else None)"

definition parse_hex2 :: "char \<Rightarrow> char \<Rightarrow> nat option" where
  "parse_hex2 h l =
    (case (hex_value h, hex_value l) of (Some a, Some b) \<Rightarrow> Some (16 * a + b) | _ \<Rightarrow> None)"

lemma of_char_hex_digit: "n < 16 \<Longrightarrow> of_char (hex_digit n) = (if n < 10 then 48 + n else 87 + n)"
  by (simp add: hex_digit_def)

lemma hex_value_hex_digit [simp]: "n < 16 \<Longrightarrow> hex_value (hex_digit n) = Some n"
  by (auto simp: hex_value_def Let_def of_char_hex_digit)

lemma hex_value_less: "hex_value c = Some n \<Longrightarrow> n < 16"
  by (auto simp: hex_value_def Let_def split: if_splits)

lemma hex02_byte: "n < 256 \<Longrightarrow> hex02 n = [hex_digit (n div 16), hex_digit (n mod 16)]"
  by (auto simp: hex02_def Let_def hex_digits.simps [of n] hex_digits.simps [of "n div 16"]
      hex_digit_def)

lemma parse_hex2_hex02:
  "n < 256 \<Longrightarrow> parse_hex2 (hex_digit (n div 16)) (hex_digit (n mod 16)) = Some n"
  by (simp add: parse_hex2_def)

lemma parse_hex2_less: "parse_hex2 h l = Some v \<Longrightarrow> v < 256"
  by (auto simp: parse_hex2_def split: option.splits dest!: hex_value_less)

section \<open>Decimal\<close>

text \<open>The verb \<open>%d\<close>.\<close>

fun decimal :: "nat \<Rightarrow> string" where
  "decimal n = (if n < 10 then [char_of (48 + n)] else decimal (n div 10) @ [char_of (48 + n mod 10)])"

declare decimal.simps [simp del]

section \<open>Prefixes\<close>

definition has_prefix :: "string \<Rightarrow> string \<Rightarrow> bool" where
  "has_prefix s p \<longleftrightarrow> prefix p s"

definition trim_prefix :: "string \<Rightarrow> string \<Rightarrow> string" where
  "trim_prefix s p = (if has_prefix s p then drop (length p) s else s)"

lemma has_prefix_append [simp]: "has_prefix (p @ s) p"
  by (simp add: has_prefix_def)

lemma trim_prefix_append [simp]: "trim_prefix (p @ s) p = s"
  by (simp add: trim_prefix_def)

lemma trim_prefix_has: "has_prefix s p \<Longrightarrow> p @ trim_prefix s p = s"
  by (auto simp: trim_prefix_def has_prefix_def elim: prefixE)

end
