(* ===== verification/Json.thy ===== *)
theory Json
  imports Go_Text
begin

text \<open>
  \<open>encoding/json\<close> as the program uses it on text: the encoding of a struct whose fields are
  strings, and the decoding of any JSON text into such a struct. Texts are lists of bytes,
  numbers below 256 here. The decoder's limit of 10000 nested arrays and objects is left out.
\<close>

definition bytes_of :: "string \<Rightarrow> nat list" where
  "bytes_of s = map of_char s"

definition string_of :: "nat list \<Rightarrow> string" where
  "string_of bs = map char_of bs"

section \<open>Encoding\<close>

text \<open>\<open>\u\<close> and four lower case hexadecimal digits.\<close>

definition hex_byte :: "nat \<Rightarrow> nat" where
  "hex_byte n = (if n < 10 then 48 + n else 87 + n)"

definition u_escape :: "nat \<Rightarrow> nat list" where
  "u_escape r = [92, 117, hex_byte (r div 4096 mod 16), hex_byte (r div 256 mod 16), hex_byte (r div 16 mod 16), hex_byte (r mod 16)]"

text \<open>A byte below 128: quotes, backslashes, control characters and the characters special in HTML.\<close>

definition escape_ascii :: "nat \<Rightarrow> nat list" where
  "escape_ascii b =
    (if b = 34 \<or> b = 92 then [92, b]
     else if b = 8 then [92, 98]
     else if b = 12 then [92, 102]
     else if b = 10 then [92, 110]
     else if b = 13 then [92, 114]
     else if b = 9 then [92, 116]
     else if b < 32 \<or> b = 60 \<or> b = 62 \<or> b = 38 then u_escape b
     else [b])"

function escape :: "nat list \<Rightarrow> nat list" where
  "escape [] = []"
| "escape (b # bs) =
    (if b < 128 then escape_ascii b @ escape bs
     else
       (let (r, n) = decode_rune (b # bs)
        in (if r = rune_error \<and> n = 1 \<or> r = 8232 \<or> r = 8233 then u_escape r else take n (b # bs))
           @ escape (drop (n - 1) bs)))"
  by pat_completeness auto
termination
  by (relation "measure length") auto

definition quote_string :: "string \<Rightarrow> nat list" where
  "quote_string s = 34 # escape (bytes_of s) @ [34]"

text \<open>The fields of a struct, in order.\<close>

fun encode_fields :: "(string \<times> string) list \<Rightarrow> nat list" where
  "encode_fields [] = []"
| "encode_fields [(f, s)] = quote_string f @ 58 # quote_string s"
| "encode_fields ((f, s) # fs) = quote_string f @ 58 # quote_string s @ 44 # encode_fields fs"

definition encode_struct :: "(string \<times> string) list \<Rightarrow> nat list" where
  "encode_struct fs = 123 # encode_fields fs @ [125]"

section \<open>Decoding strings\<close>

definition hex_of_byte :: "nat \<Rightarrow> nat option" where
  "hex_of_byte n =
    (if 48 \<le> n \<and> n \<le> 57 then Some (n - 48)
     else if 97 \<le> n \<and> n \<le> 102 then Some (n - 87)
     else if 65 \<le> n \<and> n \<le> 70 then Some (n - 55)
     else None)"

fun hex4 :: "nat list \<Rightarrow> (nat \<times> nat list) option" where
  "hex4 (a # b # c # d # rest) =
    (case (hex_of_byte a, hex_of_byte b, hex_of_byte c, hex_of_byte d) of
       (Some w, Some x, Some y, Some z) \<Rightarrow> Some (w * 4096 + x * 256 + y * 16 + z, rest)
     | _ \<Rightarrow> None)"
| "hex4 _ = None"

text \<open>\<open>getu4\<close>: an escaped code unit at the start of the text.\<close>

fun getu4 :: "nat list \<Rightarrow> (nat \<times> nat list) option" where
  "getu4 (a # b # rest) = (if a = 92 \<and> b = 117 then hex4 rest else None)"
| "getu4 _ = None"

definition is_surrogate :: "nat \<Rightarrow> bool" where
  "is_surrogate r \<longleftrightarrow> 55296 \<le> r \<and> r \<le> 57343"

text \<open>\<open>utf16.DecodeRune\<close> on a code unit and, if there is one, the next; the second component is the
  text that is left.\<close>

definition decode_surrogate :: "nat \<Rightarrow> nat list \<Rightarrow> nat \<times> nat list" where
  "decode_surrogate r cs =
    (case getu4 cs of
       Some (r2, ds) \<Rightarrow>
         if r \<le> 56319 \<and> 56320 \<le> r2 \<and> r2 \<le> 57343 then ((r - 55296) * 1024 + (r2 - 56320) + 65536, ds)
         else (rune_error, cs)
     | None \<Rightarrow> (rune_error, cs))"

definition simple_escape :: "nat \<Rightarrow> nat option" where
  "simple_escape c =
    (if c = 34 \<or> c = 92 \<or> c = 47 then Some c
     else if c = 98 then Some 8
     else if c = 102 then Some 12
     else if c = 110 then Some 10
     else if c = 114 then Some 13
     else if c = 116 then Some 9
     else None)"

lemma hex4_length: "hex4 s = Some (r, t) \<Longrightarrow> length t < length s"
  by (induction s rule: hex4.induct) (auto split: option.splits)

lemma getu4_length: "getu4 s = Some (r, t) \<Longrightarrow> length t < length s"
  by (cases s rule: getu4.cases) (auto split: if_splits dest: hex4_length)

lemma decode_surrogate_length: "length (snd (decode_surrogate r cs)) \<le> length cs"
  by (auto simp: decode_surrogate_def dest: getu4_length split: option.split)

text \<open>
  The characters after an opening quote up to the closing one, unescaped, and the text after it.
\<close>

definition prepend :: "nat list \<Rightarrow> (nat list \<times> nat list) option \<Rightarrow> (nat list \<times> nat list) option" where
  "prepend p = map_option (\<lambda>(s, rest). (p @ s, rest))"

function parse_chars :: "nat list \<Rightarrow> (nat list \<times> nat list) option" where
  "parse_chars [] = None"
| "parse_chars (b # bs) =
    (if b = 34 then Some ([], bs)
     else if b = 92 then
       (case bs of
          [] \<Rightarrow> None
        | c # cs \<Rightarrow>
            if c = 117 then
              (case hex4 cs of
                 None \<Rightarrow> None
               | Some (r, ds) \<Rightarrow>
                   let (r', es) = (if is_surrogate r then decode_surrogate r ds else (r, ds))
                   in prepend (encode_rune r') (parse_chars es))
            else
              (case simple_escape c of
                 None \<Rightarrow> None
               | Some e \<Rightarrow> prepend [e] (parse_chars cs)))
     else if b < 32 then None
     else if b < 128 then prepend [b] (parse_chars bs)
     else prepend (encode_rune (fst (decode_rune (b # bs)))) (parse_chars (drop (snd (decode_rune (b # bs)) - 1) bs)))"
  by pat_completeness auto
termination
proof (relation "measure length", goal_cases)
  case (2 b bs c cs a r ds p r' es)
  have "length ds < length cs" using 2 by (auto dest: hex4_length)
  moreover have "es = snd p" using 2 by (metis snd_conv)
  then have "length es \<le> length ds"
    using 2 decode_surrogate_length [of r ds] by (cases a) (simp split: if_splits)
  ultimately show ?case using 2 by simp
qed auto

declare parse_chars.simps(2) [simp del] escape.simps(2) [simp del]

section \<open>Decoding values\<close>

datatype jval =
    JNull
  | JBool bool
  | JNum "nat list"
  | JStr "nat list"
  | JArr "jval list"
  | JObj "(nat list \<times> jval) list"

fun skip_ws :: "nat list \<Rightarrow> nat list" where
  "skip_ws (b # bs) = (if b \<in> {32, 9, 13, 10} then skip_ws bs else b # bs)"
| "skip_ws [] = []"

definition is_digit :: "nat \<Rightarrow> bool" where
  "is_digit b \<longleftrightarrow> 48 \<le> b \<and> b \<le> 57"

text \<open>One or more digits.\<close>

definition take_digits :: "nat list \<Rightarrow> (nat list \<times> nat list) option" where
  "take_digits s = (if takeWhile is_digit s = [] then None else Some (takeWhile is_digit s, dropWhile is_digit s))"

definition take_int :: "nat list \<Rightarrow> (nat list \<times> nat list) option" where
  "take_int s = (case s of b # bs \<Rightarrow> if b = 48 then Some ([48], bs) else take_digits s | [] \<Rightarrow> None)"

definition take_fraction :: "nat list \<Rightarrow> (nat list \<times> nat list) option" where
  "take_fraction s = (case s of
     b # bs \<Rightarrow> if b = 46 then map_option (\<lambda>(d, r). (b # d, r)) (take_digits bs) else Some ([], s)
   | [] \<Rightarrow> Some ([], s))"

definition take_exponent :: "nat list \<Rightarrow> (nat list \<times> nat list) option" where
  "take_exponent s = (case s of
     b # bs \<Rightarrow>
       if b = 101 \<or> b = 69 then
         (case bs of
            c # cs \<Rightarrow> if c = 43 \<or> c = 45 then map_option (\<lambda>(d, r). (b # c # d, r)) (take_digits cs)
                      else map_option (\<lambda>(d, r). (b # d, r)) (take_digits bs)
          | [] \<Rightarrow> None)
       else Some ([], s)
   | [] \<Rightarrow> Some ([], s))"

definition parse_number :: "nat list \<Rightarrow> (jval \<times> nat list) option" where
  "parse_number s =
    (let (sign, s) = (case s of b # bs \<Rightarrow> if b = 45 then ([45], bs) else ([], s) | [] \<Rightarrow> ([], s)) in
     case take_int s of
       None \<Rightarrow> None
     | Some (i, s) \<Rightarrow>
         (case take_fraction s of
            None \<Rightarrow> None
          | Some (f, s) \<Rightarrow>
              (case take_exponent s of None \<Rightarrow> None | Some (e, s) \<Rightarrow> Some (JNum (sign @ i @ f @ e), s))))"

definition parse_literal :: "nat list \<Rightarrow> (jval \<times> nat list) option" where
  "parse_literal s =
    (if take 4 s = bytes_of ''null'' then Some (JNull, drop 4 s)
     else if take 4 s = bytes_of ''true'' then Some (JBool True, drop 4 s)
     else if take 5 s = bytes_of ''false'' then Some (JBool False, drop 5 s)
     else parse_number s)"

text \<open>
  A value, the elements of an array after \<open>[\<close> or a comma, and the members of an object after \<open>{\<close> or
  a comma. Each call uses up one unit of fuel; \<open>parse_fuel\<close> below says how much is enough.
\<close>

fun parse_value :: "nat \<Rightarrow> nat list \<Rightarrow> (jval \<times> nat list) option"
  and parse_elems :: "nat \<Rightarrow> nat list \<Rightarrow> (jval list \<times> nat list) option"
  and parse_members :: "nat \<Rightarrow> nat list \<Rightarrow> ((nat list \<times> jval) list \<times> nat list) option"
where
  "parse_value 0 s = None"
| "parse_value (Suc n) s =
    (case skip_ws s of
       [] \<Rightarrow> None
     | b # bs \<Rightarrow>
         if b = 123 then
           (case skip_ws bs of
              [] \<Rightarrow> None
            | c # cs \<Rightarrow> if c = 125 then Some (JObj [], cs)
                        else map_option (\<lambda>(ms, r). (JObj ms, r)) (parse_members n (c # cs)))
         else if b = 91 then
           (case skip_ws bs of
              [] \<Rightarrow> None
            | c # cs \<Rightarrow> if c = 93 then Some (JArr [], cs)
                        else map_option (\<lambda>(vs, r). (JArr vs, r)) (parse_elems n (c # cs)))
         else if b = 34 then map_option (\<lambda>(str, r). (JStr str, r)) (parse_chars bs)
         else parse_literal (b # bs))"
| "parse_elems 0 s = None"
| "parse_elems (Suc n) s =
    (case parse_value n s of
       None \<Rightarrow> None
     | Some (v, r) \<Rightarrow>
         (case skip_ws r of
            [] \<Rightarrow> None
          | c # cs \<Rightarrow> if c = 93 then Some ([v], cs)
                      else if c = 44 then map_option (\<lambda>(vs, r). (v # vs, r)) (parse_elems n cs)
                      else None))"
| "parse_members 0 s = None"
| "parse_members (Suc n) s =
    (case skip_ws s of
       [] \<Rightarrow> None
     | b # bs \<Rightarrow>
         if b \<noteq> 34 then None
         else
           (case parse_chars bs of
              None \<Rightarrow> None
            | Some (k, r) \<Rightarrow>
                (case skip_ws r of
                   [] \<Rightarrow> None
                 | c # cs \<Rightarrow>
                     if c \<noteq> 58 then None
                     else
                       (case parse_value n cs of
                          None \<Rightarrow> None
                        | Some (v, r) \<Rightarrow>
                            (case skip_ws r of
                               [] \<Rightarrow> None
                             | c # cs \<Rightarrow>
                                 if c = 125 then Some ([(k, v)], cs)
                                 else if c = 44 then map_option (\<lambda>(ms, r). ((k, v) # ms, r)) (parse_members n cs)
                                 else None)))))"

definition fuel_for :: "nat list \<Rightarrow> nat" where
  "fuel_for s = 2 * length s + 2"

text \<open>\<open>Decoder.Decode\<close> reads the first value of the text, \<open>Unmarshal\<close> wants nothing but space after it.\<close>

definition decode_first :: "nat list \<Rightarrow> jval option" where
  "decode_first s = map_option fst (parse_value (fuel_for s) s)"

definition decode_all :: "nat list \<Rightarrow> jval option" where
  "decode_all s =
    (case parse_value (fuel_for s) s of Some (v, r) \<Rightarrow> if skip_ws r = [] then Some v else None | None \<Rightarrow> None)"

section \<open>Decoding into a struct\<close>

text \<open>Names match exactly or up to case; U+017F and U+212A fold to the letters S and K.\<close>

definition fold_rune :: "nat \<Rightarrow> nat" where
  "fold_rune r = (if 97 \<le> r \<and> r \<le> 122 then r - 32 else if r = 383 then 83 else if r = 8490 then 75 else r)"

definition fold_name :: "nat list \<Rightarrow> nat list" where
  "fold_name k = map fold_rune (rune_list k)"

definition find_field :: "string list \<Rightarrow> nat list \<Rightarrow> string option" where
  "find_field fields k =
    (case find (\<lambda>f. bytes_of f = k) fields of
       Some f \<Rightarrow> Some f
     | None \<Rightarrow> find (\<lambda>f. fold_name (bytes_of f) = fold_name k) fields)"

text \<open>A struct whose fields are strings, as a function from its field names; \<open>null\<close> changes nothing.\<close>

fun set_fields :: "string list \<Rightarrow> (nat list \<times> jval) list \<Rightarrow> (string \<Rightarrow> string) \<Rightarrow> (string \<Rightarrow> string) option" where
  "set_fields fields [] st = Some st"
| "set_fields fields ((k, v) # ms) st =
    (case find_field fields k of
       None \<Rightarrow> set_fields fields ms st
     | Some f \<Rightarrow>
         (case v of
            JStr s \<Rightarrow> set_fields fields ms (st(f := string_of s))
          | JNull \<Rightarrow> set_fields fields ms st
          | _ \<Rightarrow> None))"

definition to_struct :: "string list \<Rightarrow> jval \<Rightarrow> (string \<Rightarrow> string) option" where
  "to_struct fields v =
    (case v of
       JNull \<Rightarrow> Some (\<lambda>_. [])
     | JObj ms \<Rightarrow> set_fields fields ms (\<lambda>_. [])
     | _ \<Rightarrow> None)"

definition decode_struct :: "string list \<Rightarrow> nat list \<Rightarrow> (string \<Rightarrow> string) option" where
  "decode_struct fields s = (case decode_first s of None \<Rightarrow> None | Some v \<Rightarrow> to_struct fields v)"

definition unmarshal_struct :: "string list \<Rightarrow> nat list \<Rightarrow> (string \<Rightarrow> string) option" where
  "unmarshal_struct fields s = (case decode_all s of None \<Rightarrow> None | Some v \<Rightarrow> to_struct fields v)"

section \<open>Every parser consumes its input\<close>

lemma prepend_Some: "prepend p x = Some (s, r) \<longleftrightarrow> (\<exists>s'. x = Some (s', r) \<and> s = p @ s')"
  by (auto simp: prepend_def)

lemma parse_chars_length: "parse_chars s = Some (v, r) \<Longrightarrow> length r < length s"
proof (induction s arbitrary: v rule: parse_chars.induct)
  case (2 b bs)
  consider "b = 34" | "b = 92" | "b \<noteq> 34" "b \<noteq> 92" "32 \<le> b" "b < 128" | "128 \<le> b"
    using "2.prems" by (force simp: parse_chars.simps(2) split: if_splits)
  then show ?case
  proof cases
    case 1
    then show ?thesis using "2.prems" by (simp add: parse_chars.simps(2))
  next
    case b: 2
    then obtain c cs where cs: "bs = c # cs" using "2.prems" by (cases bs) (simp_all add: parse_chars.simps(2))
    show ?thesis
    proof (cases "c = 117")
      case True
      then obtain q ds where q: "hex4 cs = Some (q, ds)"
        using "2.prems" b cs by (auto simp: parse_chars.simps(2) split: option.splits)
      let ?p = "if is_surrogate q then decode_surrogate q ds else (q, ds)"
      have "length (snd ?p) \<le> length ds" using decode_surrogate_length [of q ds] by simp
      moreover have "length ds < length cs" using q by (rule hex4_length)
      moreover obtain v' where "parse_chars (snd ?p) = Some (v', r)"
        using "2.prems" b cs True q by (auto simp: parse_chars.simps(2) prepend_Some split: prod.splits)
      then have "length r < length (snd ?p)"
        using "2.IH"(1) [OF _ b cs True q refl, of ?p "fst ?p" "snd ?p" v'] b by simp
      ultimately show ?thesis using cs by simp
    next
      case False
      then obtain e v' where "simple_escape c = Some e" "parse_chars cs = Some (v', r)"
        using "2.prems" b cs by (auto simp: parse_chars.simps(2) prepend_Some split: option.splits)
      then have "length r < length cs" using "2.IH"(2) [OF _ b cs False] b by simp
      then show ?thesis using cs by simp
    qed
  next
    case b: 3
    then obtain v' where "parse_chars bs = Some (v', r)"
      using "2.prems" by (auto simp: parse_chars.simps(2) prepend_Some)
    then have "length r < length bs" using "2.IH"(3) b by simp
    then show ?thesis by simp
  next
    case b: 4
    let ?t = "drop (snd (decode_rune (b # bs)) - 1) bs"
    obtain v' where "parse_chars ?t = Some (v', r)"
      using "2.prems" b by (auto simp: parse_chars.simps(2) prepend_Some)
    then have "length r < length ?t" using "2.IH"(4) b by simp
    then show ?thesis by simp
  qed
qed simp

lemma skip_ws_length [simp]: "length (skip_ws s) \<le> length s"
  by (induction s rule: skip_ws.induct) auto

lemma skip_ws_Cons_length: "skip_ws s = b # bs \<Longrightarrow> length bs < length s"
  using skip_ws_length [of s] by simp

lemma take_digits_length: "take_digits s = Some (d, r) \<Longrightarrow> length r < length s"
proof -
  assume "take_digits s = Some (d, r)"
  then have "takeWhile is_digit s \<noteq> []" "r = dropWhile is_digit s" by (auto simp: take_digits_def split: if_splits)
  moreover have "length (takeWhile is_digit s) + length (dropWhile is_digit s) = length s"
    by (metis length_append takeWhile_dropWhile_id)
  ultimately show ?thesis by (cases "takeWhile is_digit s") auto
qed

lemma parse_number_length: "parse_number s = Some (v, r) \<Longrightarrow> length r < length s"
proof -
  have int: "length r < length s" if "take_int s = Some (d, r)" for s d r
    using that by (auto simp: take_int_def split: list.splits if_splits dest!: take_digits_length)
  have frac: "length r \<le> length s" if "take_fraction s = Some (d, r)" for s d r
    using that by (auto simp: take_fraction_def split: list.splits if_splits dest!: take_digits_length)
  have ex: "length r \<le> length s" if "take_exponent s = Some (d, r)" for s d r
    using that by (auto simp: take_exponent_def split: list.splits if_splits dest!: take_digits_length)
  assume a: "parse_number s = Some (v, r)"
  obtain sg s0 where s0: "(case s of b # bs \<Rightarrow> if b = 45 then ([45 :: nat], bs) else ([], s) | [] \<Rightarrow> ([], s)) = (sg, s0)"
    by fastforce
  then have "length s0 \<le> length s" by (auto split: list.splits if_splits)
  moreover obtain i s1 f s2 e where "take_int s0 = Some (i, s1)" "take_fraction s1 = Some (f, s2)" "take_exponent s2 = Some (e, r)"
    using a unfolding parse_number_def s0 by (auto split: option.splits)
  ultimately show ?thesis using int frac ex by (meson le_less_trans less_le_trans order_trans)
qed

lemma parse_literal_length: "parse_literal s = Some (v, r) \<Longrightarrow> length r < length s"
proof -
  assume a: "parse_literal s = Some (v, r)"
  have len: "length (bytes_of t) = length t" for t by (simp add: bytes_of_def)
  have "length (drop k s) < length s" if "take k s = bytes_of t" "length t = k" "0 < k" for k t
  proof -
    have "length (take k s) = k" using that len by simp
    then show ?thesis using that(3) by simp
  qed
  from this [of 4 "''null''"] this [of 4 "''true''"] this [of 5 "''false''"] show ?thesis
    using a parse_number_length by (auto simp: parse_literal_def split: if_splits)
qed

lemma parse_lengths:
  "parse_value n s = Some (v, r) \<Longrightarrow> length r < length s"
  "parse_elems n s = Some (vs, r) \<Longrightarrow> length r < length s"
  "parse_members n s = Some (ms, r) \<Longrightarrow> length r < length s"
proof (induction n arbitrary: s v vs ms r)
  case (Suc n)
  have ws: "length bs < length s" if "skip_ws s = b # bs" for s b bs using that by (rule skip_ws_Cons_length)
  {
    case 1
    then obtain b bs where b: "skip_ws s = b # bs" by (auto split: list.splits)
    consider "b = 123" | "b = 91" | "b = 34" | "b \<notin> {123, 91, 34}" by blast
    then show ?case
    proof cases
      case o: 1
      then obtain c cs where c: "skip_ws bs = c # cs" using 1 b by (auto split: list.splits)
      show ?thesis
        using 1 b o c ws [OF b] ws [OF c] skip_ws_length [of bs] Suc.IH(3) [of "c # cs" _ r]
        by (fastforce split: if_splits)
    next
      case o: 2
      then obtain c cs where c: "skip_ws bs = c # cs" using 1 b by (auto split: list.splits)
      show ?thesis
        using 1 b o c ws [OF b] ws [OF c] skip_ws_length [of bs] Suc.IH(2) [of "c # cs" _ r]
        by (fastforce split: if_splits)
    next
      case 3
      then show ?thesis using 1 b ws [OF b] parse_chars_length [of bs _ r] by fastforce
    next
      case 4
      then show ?thesis using 1 b skip_ws_length [of s] parse_literal_length [of "b # bs" v r] by auto
    qed
  next
    case 2
    then obtain v1 r1 c cs where v1: "parse_value n s = Some (v1, r1)" "skip_ws r1 = c # cs"
      by (auto split: option.splits list.splits)
    then show ?case
      using 2 Suc.IH(1) [OF v1(1)] ws [OF v1(2)] Suc.IH(2) [of cs _ r] by (fastforce split: if_splits)
  next
    case 3
    then obtain b bs where b: "skip_ws s = b # bs" by (auto split: list.splits)
    then have "b = 34" using 3 by (simp split: if_splits)
    then obtain k r1 where k: "parse_chars bs = Some (k, r1)" using 3 b by (auto split: option.splits)
    then obtain c cs where c: "skip_ws r1 = c # cs" using 3 b \<open>b = 34\<close> by (auto split: list.splits)
    then obtain v1 r2 where v1: "parse_value n cs = Some (v1, r2)"
      using 3 b k \<open>b = 34\<close> by (auto split: option.splits if_splits)
    then obtain d ds where d: "skip_ws r2 = d # ds"
      using 3 b k c \<open>b = 34\<close> by (auto split: list.splits if_splits)
    have "length ds < length s"
      using ws [OF b] parse_chars_length [OF k] ws [OF c] Suc.IH(1) [OF v1] ws [OF d] by linarith
    moreover have "r = ds \<or> (\<exists>ms'. parse_members n ds = Some (ms', r))"
      using 3 b k c v1 d \<open>b = 34\<close> by (auto split: if_splits)
    ultimately show ?case using Suc.IH(3) [of ds _ r] by force
  }
qed simp_all

section \<open>Enough fuel\<close>

lemma parse_fuel:
  "2 * length s + 1 \<le> n \<Longrightarrow> 2 * length s + 1 \<le> m \<Longrightarrow> parse_value n s = parse_value m s"
  "2 * length s + 2 \<le> n \<Longrightarrow> 2 * length s + 2 \<le> m \<Longrightarrow> parse_elems n s = parse_elems m s"
  "2 * length s + 1 \<le> n \<Longrightarrow> 2 * length s + 1 \<le> m \<Longrightarrow> parse_members n s = parse_members m s"
proof (induction n arbitrary: s m)
  case (Suc n)
  have ws: "length bs < length s" if "skip_ws s = b # bs" for s b bs using that by (rule skip_ws_Cons_length)
  {
    case 1
    then obtain k where m: "m = Suc k" by (cases m) simp_all
    have m3: "parse_members n (c # cs) = parse_members k (c # cs)"
      and e2: "parse_elems n (c # cs) = parse_elems k (c # cs)"
      if "skip_ws s = b # bs" "skip_ws bs = c # cs" for b bs c cs
    proof -
      have "length (c # cs) < length s" using ws [OF that(1)] skip_ws_length [of bs] that(2) by simp
      then show "parse_members n (c # cs) = parse_members k (c # cs)" "parse_elems n (c # cs) = parse_elems k (c # cs)"
        using 1 m by (intro Suc.IH; simp)+
    qed
    show ?case
      unfolding m by (auto simp: m3 e2 split: list.split)
  next
    case 2
    then obtain k where m: "m = Suc k" by (cases m) simp_all
    have v: "parse_value n s = parse_value k s" using 2 m by (intro Suc.IH(1)) simp_all
    have e: "parse_elems n cs = parse_elems k cs" if "parse_value k s = Some (v1, r1)" "skip_ws r1 = c # cs" for v1 r1 c cs
    proof -
      have "length cs < length s" using parse_lengths(1) [OF that(1)] ws [OF that(2)] by simp
      then show ?thesis using 2 m by (intro Suc.IH(2)) simp_all
    qed
    show ?case unfolding m by (auto simp: v e split: option.split list.split)
  next
    case 3
    then obtain k where m: "m = Suc k" by (cases m) simp_all
    have v: "parse_value n cs = parse_value k cs"
      if "skip_ws s = b # bs" "parse_chars bs = Some (key, r1)" "skip_ws r1 = c # cs" for b bs key r1 c cs
    proof -
      have "length cs < length s" using ws [OF that(1)] parse_chars_length [OF that(2)] ws [OF that(3)] by simp
      then show ?thesis using 3 m by (intro Suc.IH(1)) simp_all
    qed
    have ms: "parse_members n ds = parse_members k ds"
      if "skip_ws s = b # bs" "parse_chars bs = Some (key, r1)" "skip_ws r1 = c # cs"
        "parse_value k cs = Some (v1, r2)" "skip_ws r2 = d # ds" for b bs key r1 c cs v1 r2 d ds
    proof -
      have "length ds < length s"
        using ws [OF that(1)] parse_chars_length [OF that(2)] ws [OF that(3)] parse_lengths(1) [OF that(4)] ws [OF that(5)]
        by simp
      then show ?thesis using 3 m by (intro Suc.IH(3)) simp_all
    qed
    show ?case unfolding m by (auto simp: v ms split: option.split list.split)
  }
qed simp_all

section \<open>Escaping and unescaping\<close>

lemma hex_of_hex_byte: "n < 16 \<Longrightarrow> hex_of_byte (hex_byte n) = Some n"
  by (auto simp: hex_of_byte_def hex_byte_def)

lemma hex4_digits:
  "r < 65536 \<Longrightarrow> hex4 (hex_byte (r div 4096 mod 16) # hex_byte (r div 256 mod 16) # hex_byte (r div 16 mod 16) # hex_byte (r mod 16) # t)
    = Some (r, t)"
proof -
  assume r: "r < 65536"
  have sum: "r div 4096 mod 16 * 4096 + r div 256 mod 16 * 256 + r div 16 mod 16 * 16 + r mod 16 = r"
  proof -
    have q: "r div 16 div 16 = r div 256" "r div 256 div 16 = r div 4096" by (simp_all flip: div_mult2_eq)
    have "r = r div 16 * 16 + r mod 16" "r div 16 = r div 256 * 16 + r div 16 mod 16"
      "r div 256 = r div 4096 * 16 + r div 256 mod 16"
      using div_mult_mod_eq [of r 16] div_mult_mod_eq [of "r div 16" 16] div_mult_mod_eq [of "r div 256" 16]
      unfolding q by simp_all
    moreover have "r div 4096 < 16" using r by (simp add: div_less_iff_less_mult)
    then have "r div 4096 mod 16 = r div 4096" by simp
    ultimately show ?thesis by linarith
  qed
  have h: "hex_of_byte (hex_byte (n mod 16)) = Some (n mod 16)" for n by (simp add: hex_of_hex_byte)
  show ?thesis unfolding hex4.simps h by (simp only: sum option.case prod.case)
qed

lemma parse_u_escape:
  assumes "r < 65536" "\<not> is_surrogate r"
  shows "parse_chars (u_escape r @ t) = prepend (encode_rune r) (parse_chars t)"
  using hex4_digits [OF assms(1), of t] assms(2)
  by (simp add: u_escape_def parse_chars.simps(2) del: hex4.simps)

lemma encode_rune_ascii: "b < 128 \<Longrightarrow> encode_rune b = [b]"
  by (simp add: encode_rune_def)

lemma parse_escape_ascii:
  assumes "b < 128"
  shows "parse_chars (escape_ascii b @ t) = prepend [b] (parse_chars t)"
proof -
  have u: "parse_chars (u_escape b @ t) = prepend [b] (parse_chars t)"
    using parse_u_escape [of b t] assms by (simp add: is_surrogate_def encode_rune_ascii)
  show ?thesis
    unfolding escape_ascii_def using u assms
    by (auto simp: parse_chars.simps(2) simple_escape_def)
qed

text \<open>A valid rune is decoded from its own bytes, whatever follows.\<close>

lemma decode_rune_prefix:
  assumes "128 \<le> b" "decode_rune (b # bs) = (r, n)" "\<not> (r = rune_error \<and> n = 1)"
  shows "decode_rune (take n (b # bs) @ t) = (r, n) \<and> 1 < n \<and> n \<le> length (b # bs)"
  using assms
  by (auto simp: decode_rune.simps(2) split: if_splits list.splits)

lemma parse_chars_rune:
  assumes "128 \<le> b" "decode_rune (b # bs) = (r, n)" "\<not> (r = rune_error \<and> n = 1)"
  shows "parse_chars (take n (b # bs) @ t) = prepend (encode_rune r) (parse_chars t)"
proof -
  have d: "decode_rune (take n (b # bs) @ t) = (r, n)" and n: "1 < n" "n \<le> length (b # bs)"
    using decode_rune_prefix [OF assms, of t] by simp_all
  obtain k where k: "n = Suc k" using n(1) by (cases n) simp_all
  have "take n (b # bs) @ t = b # (take k bs @ t)" by (simp add: k)
  moreover have "drop (n - 1) (take k bs @ t) = t" using n(2) k by simp
  ultimately show ?thesis using assms(1) d by (simp add: parse_chars.simps(2))
qed

lemma parse_chars_escape:
  "parse_chars (escape bs @ 34 # rest) = Some (concat (map encode_rune (rune_list bs)), rest)"
proof (induction bs rule: escape.induct)
  case 1
  then show ?case by (simp add: parse_chars.simps(2))
next
  case (2 b bs)
  show ?case
  proof (cases "b < 128")
    case True
    then show ?thesis
      using "2.IH"(1) parse_escape_ascii [OF True] by (simp add: escape.simps(2) prepend_def encode_rune_ascii)
  next
    case False
    obtain r n where d: "decode_rune (b # bs) = (r, n)" by (cases "decode_rune (b # bs)")
    have IH: "parse_chars (escape (drop (n - 1) bs) @ 34 # rest)
        = Some (concat (map encode_rune (rune_list (drop (n - 1) bs))), rest)"
      using "2.IH"(2) False d by simp
    have "parse_chars ((if r = rune_error \<and> n = 1 \<or> r = 8232 \<or> r = 8233 then u_escape r else take n (b # bs)) @ t)
        = prepend (encode_rune r) (parse_chars t)" for t
    proof (cases "r = rune_error \<and> n = 1 \<or> r = 8232 \<or> r = 8233")
      case True
      then have "r < 65536" "\<not> is_surrogate r" by (auto simp: rune_error_def is_surrogate_def)
      from parse_u_escape [OF this] True show ?thesis by simp
    next
      case no: False
      then have "\<not> (r = rune_error \<and> n = 1)" by blast
      from parse_chars_rune [OF _ d this, of t] False
      have "parse_chars (take n (b # bs) @ t) = prepend (encode_rune r) (parse_chars t)" by simp
      then show ?thesis unfolding if_not_P [OF no] .
    qed
    then show ?thesis using IH d False by (simp add: escape.simps(2) prepend_def)
  qed
qed

lemma string_of_runes: "string_of (concat (map encode_rune (rune_list (bytes_of s)))) = coerce_utf8 s"
  by (simp add: string_of_def coerce_utf8_def runes_def bytes_of_def)

lemma string_of_bytes_of [simp]: "string_of (bytes_of s) = s"
  by (induction s) (simp_all add: string_of_def bytes_of_def)

section \<open>Decoding an encoded struct\<close>

lemma parse_quoted:
  "1 \<le> n \<Longrightarrow> parse_value n (quote_string s @ rest) = Some (JStr (concat (map encode_rune (rune_list (bytes_of s)))), rest)"
  by (cases n) (simp_all add: quote_string_def parse_chars_escape)

definition coerced :: "string \<Rightarrow> nat list" where
  "coerced s = concat (map encode_rune (rune_list (bytes_of s)))"

lemma parse_members_encoded:
  "fs \<noteq> [] \<Longrightarrow> length fs < n \<Longrightarrow> parse_members n (encode_fields fs @ 125 # rest)
    = Some (map (\<lambda>(f, s). (coerced f, JStr (coerced s))) fs, rest)"
proof (induction fs arbitrary: n rule: encode_fields.induct)
  case (2 f s)
  then obtain k where n: "n = Suc k" "1 \<le> k" by (cases n) auto
  have f: "parse_chars (escape (bytes_of f) @ 34 # t) = Some (coerced f, t)" for t
    by (simp add: parse_chars_escape coerced_def)
  have v: "parse_value k (quote_string s @ t) = Some (JStr (coerced s), t)" for t
    using parse_quoted [OF n(2)] by (simp add: coerced_def)
  show ?case by (simp add: n(1) quote_string_def [of f] f v del: parse_value.simps)
next
  case (3 f s g gs)
  then obtain k where n: "n = Suc k" "1 \<le> k" by (cases n) auto
  have f: "parse_chars (escape (bytes_of f) @ 34 # t) = Some (coerced f, t)" for t
    by (simp add: parse_chars_escape coerced_def)
  have v: "parse_value k (quote_string s @ t) = Some (JStr (coerced s), t)" for t
    using parse_quoted [OF n(2)] by (simp add: coerced_def)
  have "parse_members k (encode_fields (g # gs) @ 125 # rest)
      = Some (map (\<lambda>(f, s). (coerced f, JStr (coerced s))) (g # gs), rest)"
    using "3.IH" "3.prems" n(1) by simp
  then show ?case by (simp add: n(1) quote_string_def [of f] f v del: parse_value.simps parse_members.simps(2))
      (simp add: f v quote_string_def [of f] del: parse_value.simps)
qed simp

lemma length_encode_fields: "length fs \<le> length (encode_fields fs)"
  by (induction fs rule: encode_fields.induct) (simp_all add: quote_string_def)

lemma encode_fields_quote: "fs \<noteq> [] \<Longrightarrow> \<exists>t. encode_fields fs = 34 # t"
  by (cases fs rule: encode_fields.cases) (simp_all add: quote_string_def)

lemma parse_encode_struct:
  assumes "fs \<noteq> []"
  shows "parse_value (fuel_for (encode_struct fs)) (encode_struct fs)
    = Some (JObj (map (\<lambda>(f, s). (coerced f, JStr (coerced s))) fs), [])"
proof -
  define n where "n = 2 * length (encode_struct fs) + 1"
  have fuel: "fuel_for (encode_struct fs) = Suc n" by (simp add: fuel_for_def n_def)
  have "length fs < n" using length_encode_fields [of fs] by (simp add: n_def encode_struct_def)
  from parse_members_encoded [OF assms this, of "[]"]
  have members: "parse_members n (encode_fields fs @ [125]) = Some (map (\<lambda>(f, s). (coerced f, JStr (coerced s))) fs, [])" .
  obtain t where t: "encode_fields fs = 34 # t" using encode_fields_quote [OF assms] by blast
  have "skip_ws (encode_fields fs @ [125]) = 34 # t @ [125]" by (simp add: t)
  moreover have "skip_ws (encode_struct fs) = 123 # encode_fields fs @ [125]" by (simp add: encode_struct_def)
  ultimately show ?thesis
    unfolding fuel parse_value.simps using members by (simp add: t)
qed

lemma decode_encode_struct:
  "fs \<noteq> [] \<Longrightarrow> decode_all (encode_struct fs) = Some (JObj (map (\<lambda>(f, s). (coerced f, JStr (coerced s))) fs))"
  "fs \<noteq> [] \<Longrightarrow> decode_first (encode_struct fs) = Some (JObj (map (\<lambda>(f, s). (coerced f, JStr (coerced s))) fs))"
  by (simp_all add: decode_all_def decode_first_def parse_encode_struct)

lemma encode_ascii: "\<forall>b \<in> set bs. b < 128 \<Longrightarrow> concat (map encode_rune bs) = bs"
  by (induction bs) (simp_all add: encode_rune_ascii)

lemma coerced_ascii: "ascii f \<Longrightarrow> coerced f = bytes_of f"
proof -
  assume f: "ascii f"
  then have "rune_list (bytes_of f) = bytes_of f"
    using runes_ascii by (simp add: runes_def bytes_of_def)
  moreover have "\<forall>b \<in> set (bytes_of f). b < 128" using f by (auto simp: ascii_def bytes_of_def)
  then have "concat (map encode_rune (bytes_of f)) = bytes_of f" by (rule encode_ascii)
  ultimately show ?thesis by (simp add: coerced_def)
qed

lemma bytes_of_inject: "bytes_of f = bytes_of g \<longleftrightarrow> f = g"
  by (metis string_of_bytes_of)

lemma find_field_own: "f \<in> set fields \<Longrightarrow> find_field fields (bytes_of f) = Some f"
proof -
  assume f: "f \<in> set fields"
  have "find (\<lambda>g. bytes_of g = bytes_of f) fields = Some f"
    using f by (induction fields) (auto simp: bytes_of_inject)
  then show ?thesis by (simp add: find_field_def)
qed

text \<open>Encodings consist of bytes.\<close>

definition all_bytes :: "nat list \<Rightarrow> bool" where
  "all_bytes bs \<longleftrightarrow> (\<forall>b \<in> set bs. b < 256)"

lemma all_bytes_simps [simp]:
  "all_bytes []" "all_bytes (b # bs) \<longleftrightarrow> b < 256 \<and> all_bytes bs" "all_bytes (bs @ cs) \<longleftrightarrow> all_bytes bs \<and> all_bytes cs"
  by (auto simp: all_bytes_def)

lemma all_bytes_take_drop: "all_bytes bs \<Longrightarrow> all_bytes (take n bs)" "all_bytes bs \<Longrightarrow> all_bytes (drop n bs)"
  by (auto simp: all_bytes_def dest: in_set_takeD in_set_dropD)

lemma all_bytes_u_escape [simp]: "all_bytes (u_escape r)"
proof -
  have "hex_byte m < 256" if "m < 16" for m using that by (simp add: hex_byte_def)
  then have "hex_byte (n mod 16) < 256" for n by simp
  then show ?thesis by (simp add: u_escape_def)
qed

lemma all_bytes_escape: "all_bytes bs \<Longrightarrow> all_bytes (escape bs)"
proof (induction bs rule: escape.induct)
  case (2 b bs)
  obtain r n where d: "decode_rune (b # bs) = (r, n)" by (cases "decode_rune (b # bs)")
  show ?case
  proof (cases "b < 128")
    case True
    have "all_bytes (escape_ascii b)" using "2.prems" by (simp add: escape_ascii_def)
    then show ?thesis using 2 True by (simp add: escape.simps(2))
  next
    case False
    have "all_bytes (take n (b # bs))" using "2.prems" by (rule all_bytes_take_drop(1))
    moreover have "all_bytes (escape (drop (n - 1) bs))"
      using "2.IH"(2) [OF False d [symmetric] refl] "2.prems" all_bytes_take_drop(2) by simp
    ultimately show ?thesis using d False by (simp add: escape.simps(2))
  qed
qed simp

lemma all_bytes_bytes_of [simp]: "all_bytes (bytes_of s)"
  by (auto simp: all_bytes_def bytes_of_def)

lemma all_bytes_quote [simp]: "all_bytes (quote_string s)"
  by (simp add: quote_string_def all_bytes_escape)

lemma all_bytes_struct [simp]: "all_bytes (encode_struct fs)"
proof -
  have "all_bytes (encode_fields fs)" by (induction fs rule: encode_fields.induct) simp_all
  then show ?thesis by (simp add: encode_struct_def)
qed

lemma bytes_of_string_of: "all_bytes bs \<Longrightarrow> bytes_of (string_of bs) = bs"
  by (induction bs) (simp_all add: bytes_of_def string_of_def)

lemma unat_of_nat_bytes: "all_bytes bs \<Longrightarrow> map unat (map (of_nat :: nat \<Rightarrow> byte) bs) = bs"
  by (induction bs) (simp_all add: unat_of_nat)

text \<open>Fields written one after the other.\<close>

definition write_fields :: "(string \<times> string) list \<Rightarrow> (string \<Rightarrow> string) \<Rightarrow> (string \<Rightarrow> string)" where
  "write_fields fs st = fold (\<lambda>(f, s) st. st(f := coerce_utf8 s)) fs st"

lemma set_fields_encoded:
  "\<forall>(f, s) \<in> set fs. f \<in> set fields \<and> ascii f \<Longrightarrow>
    set_fields fields (map (\<lambda>(f, s). (coerced f, JStr (coerced s))) fs) st = Some (write_fields fs st)"
proof (induction fs arbitrary: st)
  case Nil
  then show ?case by (simp add: write_fields_def)
next
  case (Cons x fs)
  obtain f s where x: "x = (f, s)" by (cases x)
  have "string_of (coerced s) = coerce_utf8 s" by (simp add: coerced_def string_of_runes)
  then show ?case
    using Cons x by (simp add: find_field_own coerced_ascii write_fields_def)
qed

lemma unmarshal_encode_struct:
  assumes "fs \<noteq> []" "\<forall>(f, s) \<in> set fs. f \<in> set fields \<and> ascii f"
  shows "unmarshal_struct fields (encode_struct fs) = Some (write_fields fs (\<lambda>_. []))"
    and "decode_struct fields (encode_struct fs) = Some (write_fields fs (\<lambda>_. []))"
  using set_fields_encoded [OF assms(2)]
  by (simp_all add: unmarshal_struct_def decode_struct_def decode_encode_struct [OF assms(1)] to_struct_def)

text \<open>Structs with fixed field names and strings in UTF-8 come back as they were.\<close>

definition struct_of :: "string list \<Rightarrow> (string \<Rightarrow> string) \<Rightarrow> (string \<times> string) list" where
  "struct_of fields st = map (\<lambda>f. (f, st f)) fields"

definition utf8_struct :: "string list \<Rightarrow> (string \<Rightarrow> string) \<Rightarrow> bool" where
  "utf8_struct fields st \<longleftrightarrow> fields \<noteq> [] \<and> (\<forall>f \<in> set fields. ascii f \<and> coerce_utf8 (st f) = st f) \<and> (\<forall>f. f \<notin> set fields \<longrightarrow> st f = [])"

lemma write_fields_struct:
  "write_fields (struct_of fields st) st0 f = (if f \<in> set fields then coerce_utf8 (st f) else st0 f)"
  unfolding write_fields_def struct_of_def by (induction fields arbitrary: st0) auto

interpretation struct_codec: codec "\<lambda>st. encode_struct (struct_of fields st)" "unmarshal_struct fields" "utf8_struct fields"
  for fields
proof
  fix st assume st: "utf8_struct fields st"
  then have "unmarshal_struct fields (encode_struct (struct_of fields st)) = Some (write_fields (struct_of fields st) (\<lambda>_. []))"
    by (intro unmarshal_encode_struct) (auto simp: utf8_struct_def struct_of_def)
  moreover have "write_fields (struct_of fields st) (\<lambda>_. []) = st"
    using st by (auto simp: fun_eq_iff write_fields_struct utf8_struct_def)
  ultimately show "unmarshal_struct fields (encode_struct (struct_of fields st)) = Some st" by simp
qed

end
