(* ===== verification/Filenames.thy ===== *)
theory Filenames
  imports Go_Text
begin

text \<open>
  The file names of the chunk store (\<open>sanitize\<close>, \<open>unsanitize\<close>, \<open>keyFromFilename\<close> of
  \<open>pkg/chunk/store.go\<close>): the name a key's entry is written under, and the key a name is read
  back as when the store restarts. Names are relative to the store's directory; the lemma
  \<open>sanitize_safe\<close> is why joining them with the directory never leaves it.
\<close>

section \<open>The translation\<close>

definition safe_rune :: "nat \<Rightarrow> bool" where
  "safe_rune c \<longleftrightarrow> (97 \<le> c \<and> c \<le> 122) \<or> (65 \<le> c \<and> c \<le> 90) \<or> (48 \<le> c \<and> c \<le> 57) \<or> c = 45 \<or> c = 95"

definition sanitize_rune :: "nat \<Rightarrow> string" where
  "sanitize_rune c = (if safe_rune c then [char_of c] else CHR ''_'' # hex02 c)"

definition sanitize :: "key \<Rightarrow> string" where
  "sanitize k = concat (map sanitize_rune (runes k))"

fun unsanitize :: "string \<Rightarrow> key" where
  "unsanitize (c # h # l # rest) =
    (if c = CHR ''_'' then
       (case parse_hex2 h l of
          Some v \<Rightarrow> char_of v # unsanitize rest
        | None \<Rightarrow> c # unsanitize (h # l # rest))
     else c # unsanitize (h # l # rest))"
| "unsanitize (c # rest) = c # unsanitize rest"
| "unsanitize [] = []"

definition json_ext :: string where
  "json_ext = ''.json''"

definition entry_file :: "key \<Rightarrow> string" where
  "entry_file k = sanitize k @ json_ext"

definition key_from_filename :: "string \<Rightarrow> key" where
  "key_from_filename base = (let raw = take (length base - length json_ext) base in unsanitize raw)"

section \<open>Sanitized names are safe\<close>

lemma hex_value_not_underscore [simp]: "hex_value (CHR ''_'') = None"
  by (simp add: hex_value_def)

lemma hex_value_safe: "hex_value c = Some n \<Longrightarrow> safe_rune (of_char c)"
  by (auto simp: hex_value_def safe_rune_def Let_def split: if_splits)

lemma hex_digits_safe: "c \<in> set (hex_digits n) \<Longrightarrow> safe_rune (of_char c)"
proof (induction n rule: hex_digits.induct)
  case (1 n)
  have "safe_rune (of_char (hex_digit m))" if "m < 16" for m
    using that by (auto intro: hex_value_safe)
  with 1 show ?case
    by (cases "n < 16") (auto simp: hex_digits.simps [of n])
qed

lemma hex02_safe: "c \<in> set (hex02 n) \<Longrightarrow> safe_rune (of_char c)"
  by (auto simp: hex02_def Let_def dest: hex_digits_safe split: if_splits
      intro: hex_value_safe [of "hex_digit 0" 0])

lemma sanitize_rune_safe: "c \<in> set (sanitize_rune r) \<Longrightarrow> safe_rune (of_char c)"
  by (auto simp: sanitize_rune_def dest: hex02_safe split: if_splits)
     (auto simp: safe_rune_def)

lemma sanitize_safe_chars: "c \<in> set (sanitize k) \<Longrightarrow> safe_rune (of_char c)"
  by (auto simp: sanitize_def dest: sanitize_rune_safe)

section \<open>Reading names back\<close>

lemma sanitize_Nil [simp]: "sanitize [] = []"
  by (simp add: sanitize_def runes_def)

lemma sanitize_Cons:
  "ascii (c # k) \<Longrightarrow> sanitize (c # k) = sanitize_rune (of_char c) @ sanitize k"
  by (simp add: sanitize_def runes_ascii)

lemma sanitize_rune_char:
  "(of_char c :: nat) < 128 \<Longrightarrow> sanitize_rune (of_char c) =
    (if safe_rune (of_char c) then [c]
     else [CHR ''_'', hex_digit (of_char c div 16), hex_digit (of_char c mod 16)])"
  by (simp add: sanitize_rune_def hex02_byte)

lemma sanitize_rune_underscore [simp]: "sanitize_rune 95 = [CHR ''_'']"
  by (simp add: sanitize_rune_def safe_rune_def char_of_eq_iff)

lemma unsanitize_plain: "c \<noteq> CHR ''_'' \<Longrightarrow> unsanitize (c # s) = c # unsanitize s"
  by (cases s rule: unsanitize.cases; simp)

lemma unsanitize_escape:
  "n < 256 \<Longrightarrow> unsanitize (CHR ''_'' # hex_digit (n div 16) # hex_digit (n mod 16) # s)
    = char_of n # unsanitize s"
  by (simp add: parse_hex2_hex02)

text \<open>An underscore of the key is followed by two hexadecimal digits of the name exactly when
  it is in the key.\<close>

definition hex_pair :: "string \<Rightarrow> nat option" where
  "hex_pair s = (case s of h # l # _ \<Rightarrow> parse_hex2 h l | _ \<Rightarrow> None)"

lemma hex_pair_simps [simp]:
  "hex_pair [] = None" "hex_pair [h] = None" "hex_pair (h # l # s) = parse_hex2 h l"
  by (simp_all add: hex_pair_def)

lemma unsanitize_underscore:
  "unsanitize (CHR ''_'' # s) =
    (case hex_pair s of Some v \<Rightarrow> char_of v # unsanitize (drop 2 s) | None \<Rightarrow> CHR ''_'' # unsanitize s)"
  by (cases s rule: unsanitize.cases) (auto simp: numeral_2_eq_2 split: option.split)

lemma parse_hex2_Some: "parse_hex2 h l = Some v \<Longrightarrow> \<exists>a b. hex_value h = Some a \<and> hex_value l = Some b"
  by (auto simp: parse_hex2_def split: option.splits)

lemma hex_pair_head:
  "hex_pair (x # s) = Some v \<Longrightarrow> hex_value x \<noteq> None"
  by (cases s) (auto dest: parse_hex2_Some)

lemma hex_pair_sanitize:
  assumes "ascii k"
  shows "hex_pair (sanitize k) = hex_pair k"
proof (cases k)
  case (Cons c k')
  show ?thesis
  proof (cases k')
    case Nil
    have "hex_pair (sanitize [c]) = None"
      using assms Cons
      by (auto simp: sanitize_Cons sanitize_rune_char parse_hex2_def split: option.splits)
    then show ?thesis using Cons Nil by simp
  next
    fix d r
    assume k': "k' = d # r"
    have s: "sanitize k = sanitize_rune (of_char c) @ sanitize_rune (of_char d) @ sanitize r"
      using assms Cons k' by (simp add: sanitize_Cons)
    have "hex_value c = None" if "\<not> safe_rune (of_char c)"
      using that hex_value_safe by (cases "hex_value c") auto
    moreover have "hex_value d = None" if "\<not> safe_rune (of_char d)"
      using that hex_value_safe by (cases "hex_value d") auto
    ultimately show ?thesis
      using assms Cons k' unfolding s
      by (auto simp: sanitize_rune_char parse_hex2_def split: option.splits)
  qed
qed simp

lemma drop2_sanitize:
  assumes "ascii k" "hex_pair k = Some v"
  shows "drop 2 (sanitize k) = sanitize (drop 2 k)"
proof -
  obtain h l r where k: "k = h # l # r"
    using assms(2) by (auto simp: hex_pair_def split: list.splits)
  with assms show ?thesis
    by (auto simp: sanitize_Cons sanitize_rune_char dest!: parse_hex2_Some hex_value_safe)
qed

lemma unsanitize_sanitize_Cons:
  assumes "ascii (c # k)"
  shows "unsanitize (sanitize (c # k)) =
    (if c = CHR ''_'' then
       (case hex_pair k of
          Some v \<Rightarrow> char_of v # unsanitize (sanitize (drop 2 k))
        | None \<Rightarrow> c # unsanitize (sanitize k))
     else c # unsanitize (sanitize k))"
proof -
  consider (us) "c = CHR ''_''" | (safe) "c \<noteq> CHR ''_''" "safe_rune (of_char c)"
    | (esc) "c \<noteq> CHR ''_''" "\<not> safe_rune (of_char c)" by blast
  then show ?thesis
  proof cases
    case us
    then show ?thesis
      using assms hex_pair_sanitize [of k] drop2_sanitize [of k]
      by (auto simp: sanitize_Cons sanitize_rune_char safe_rune_def unsanitize_underscore
          split: option.splits)
  next
    case safe
    then show ?thesis
      using assms by (simp add: sanitize_Cons sanitize_rune_char unsanitize_plain)
  next
    case esc
    then have "sanitize (c # k)
      = CHR ''_'' # hex_digit (of_char c div 16) # hex_digit (of_char c mod 16) # sanitize k"
      using assms by (simp add: sanitize_Cons sanitize_rune_char)
    then show ?thesis
      using esc unsanitize_escape [of "of_char c" "sanitize k"] by simp
  qed
qed

section \<open>Which keys survive a restart\<close>

text \<open>A key is clash free when no underscore of it is followed by two hexadecimal digits.\<close>

fun clash_free :: "key \<Rightarrow> bool" where
  "clash_free (c # k) \<longleftrightarrow> (c = CHR ''_'' \<longrightarrow> hex_pair k = None) \<and> clash_free k"
| "clash_free [] \<longleftrightarrow> True"

definition good_key :: "key \<Rightarrow> bool" where
  "good_key k \<longleftrightarrow> ascii k \<and> clash_free k"

lemma unsanitize_sanitize_good: "good_key k \<Longrightarrow> unsanitize (sanitize k) = k"
  by (induction k) (auto simp: good_key_def unsanitize_sanitize_Cons)

lemma unsanitize_sanitize_length:
  "ascii k \<Longrightarrow> length (unsanitize (sanitize k)) \<le> length k
     \<and> (\<not> clash_free k \<longrightarrow> length (unsanitize (sanitize k)) < length k)"
proof (induction k rule: length_induct)
  case (1 k)
  show ?case
  proof (cases k)
    case (Cons c k')
    have asc: "ascii k'" using 1(2) Cons by simp
    have IH: "length (unsanitize (sanitize k')) \<le> length k'
      \<and> (\<not> clash_free k' \<longrightarrow> length (unsanitize (sanitize k')) < length k')"
      using 1(1) Cons asc by simp
    show ?thesis
    proof (cases "c = CHR ''_'' \<and> hex_pair k' \<noteq> None")
      case True
      then obtain h l r v where k': "k' = h # l # r" and v: "hex_pair k' = Some v"
        by (auto simp: hex_pair_def split: list.splits)
      have "length (unsanitize (sanitize r)) \<le> length r"
        using 1(1) Cons asc k' by simp
      moreover have "unsanitize (sanitize k) = char_of v # unsanitize (sanitize r)"
        using True 1(2) Cons v k' by (simp add: unsanitize_sanitize_Cons)
      ultimately show ?thesis using Cons k' by simp
    next
      case False
      then have "unsanitize (sanitize k) = c # unsanitize (sanitize k')"
        using 1(2) Cons by (auto simp: unsanitize_sanitize_Cons)
      then show ?thesis using IH False Cons by auto
    qed
  qed simp
qed

lemma unsanitize_sanitize_iff:
  "ascii k \<Longrightarrow> unsanitize (sanitize k) = k \<longleftrightarrow> clash_free k"
  by (metis good_key_def less_irrefl unsanitize_sanitize_good unsanitize_sanitize_length)

interpretation filename: codec sanitize "\<lambda>s. Some (unsanitize s)" good_key
  by unfold_locales (simp add: unsanitize_sanitize_good)

lemma key_from_entry_file [simp]: "key_from_filename (entry_file k) = unsanitize (sanitize k)"
  by (simp add: key_from_filename_def entry_file_def json_ext_def)

lemma sanitize_append: "ascii k \<Longrightarrow> ascii l \<Longrightarrow> sanitize (k @ l) = sanitize k @ sanitize l"
  by (induction k) (simp_all add: sanitize_Cons)

lemma sanitize_safe_string: "\<forall>c \<in> set s. safe_rune (of_char c) \<Longrightarrow> ascii s \<and> sanitize s = s"
proof (induction s)
  case (Cons c s)
  then have "(of_char c :: nat) < 128" by (simp add: safe_rune_def) arith
  with Cons show ?case by (simp add: sanitize_Cons sanitize_rune_def)
qed simp

text \<open>A character that is escaped and its escape have the same name.\<close>

lemma sanitize_escape:
  assumes "ascii u" "ascii v" "n < 128" "\<not> safe_rune n"
  shows "sanitize (u @ CHR ''_'' # hex02 n @ v) = sanitize (u @ char_of n # v)"
proof -
  have hex: "ascii (hex02 n) \<and> sanitize (hex02 n) = hex02 n"
    by (rule sanitize_safe_string) (use hex02_safe in blast)
  have "sanitize (char_of n # v) = CHR ''_'' # hex02 n @ sanitize v"
    using assms by (simp add: sanitize_Cons sanitize_rune_def)
  moreover have "sanitize (CHR ''_'' # hex02 n @ v) = CHR ''_'' # hex02 n @ sanitize v"
    using assms(2) hex by (simp add: sanitize_Cons sanitize_append)
  ultimately show ?thesis using assms(1-3) hex by (simp add: sanitize_append)
qed

lemma entry_file_inject: "entry_file k = entry_file k' \<longleftrightarrow> sanitize k = sanitize k'"
  by (simp add: entry_file_def)

lemma entry_file_good_inject:
  "good_key k \<Longrightarrow> good_key k' \<Longrightarrow> entry_file k = entry_file k' \<longleftrightarrow> k = k'"
  by (simp add: entry_file_inject filename.enc_inject)

lemmas sanitize_eval = sanitize_Cons sanitize_rune_def safe_rune_def hex02_byte hex_digit_def char_of_eq_iff
  char_eq_char_of

section \<open>Properties\<close>

text \<open>Claim C35. The file name of any key, whatever bytes it holds, is one path component: its stem
  has only letters, digits, hyphens and underscores, so no separator and no dot, and writing it
  under the store's directory never leaves that directory.\<close>

theorem entry_file_stays_in_directory:
  "set (sanitize k) \<subseteq> {c. safe_rune (of_char c)} \<and> CHR ''/'' \<notin> set (entry_file k)
    \<and> CHR ''.'' \<notin> set (sanitize k) \<and> entry_file k = sanitize k @ ''.json''"
  using sanitize_safe_chars [of _ k] by (force simp: entry_file_def json_ext_def safe_rune_def)

text \<open>Claim C32. For an ASCII key, the key read back from its file name is the key exactly when no
  underscore of the key is followed by two hexadecimal digits.\<close>

theorem filename_roundtrip_iff:
  assumes "ascii k"
  shows "key_from_filename (entry_file k) = k \<longleftrightarrow> clash_free k"
  using assms by (simp add: unsanitize_sanitize_iff)

theorem filename_roundtrip_iff_witness:
  "key_from_filename (entry_file ''bob/git-hub_io'') = ''bob/git-hub_io''"
  by (rule filename_roundtrip_iff [THEN iffD2])
     (simp_all add: parse_hex2_def hex_value_def hex_pair_def)

text \<open>Distinct ASCII keys in which no underscore is followed by two hexadecimal digits
  are stored in distinct files.\<close>

theorem entry_file_distinct:
  assumes "good_key k" "good_key k'" "k \<noteq> k'"
  shows "entry_file k \<noteq> entry_file k'"
  using assms by (simp add: entry_file_good_inject)

theorem entry_file_distinct_witness: "entry_file ''bob/a_b'' \<noteq> entry_file ''bob/a b''"
  by (rule entry_file_distinct)
     (simp_all add: good_key_def parse_hex2_def hex_value_def hex_pair_def)

end
