(* ===== verification/Versions.thy ===== *)
theory Versions
  imports Prelude
begin

text \<open>
  Versioned values: the entry a chunk server keeps for a key (\<open>Entry\<close> of
  \<open>pkg/chunk/store.go\<close>), the operations that travel between the master's log, the primary and
  the replicas, and the specification of what applying one of them does to a key/value map:
  the last writer, by sequence number, wins.

  The interface \<open>replica\<close> states this as the contract of a replica's apply operation, and
  proves once, for every implementation of it, that replicas converge whatever the order and
  the repetition of the operations they receive, and that replaying the missing part of a log
  is replaying the whole log.
\<close>

section \<open>Entries and operations\<close>

record entry =
  e_value :: bytes
  e_seq :: uint64
  e_deleted :: bool

text \<open>
  The four fields that \<open>ReplicateRequest\<close>, \<open>RecoveryEntry\<close>, \<open>WALNotify\<close> and \<open>WALEntry\<close>
  have in common.
\<close>

record op =
  op_key :: key
  op_value :: bytes
  op_seq :: uint64
  op_delete :: bool

definition entry_of :: "op \<Rightarrow> entry" where
  "entry_of x = \<lparr>e_value = (if op_delete x then [] else op_value x), e_seq = op_seq x,
                 e_deleted = op_delete x\<rparr>"

lemma entry_of_simps [simp]:
  "e_seq (entry_of x) = op_seq x" "e_deleted (entry_of x) = op_delete x"
  by (simp_all add: entry_of_def)

text \<open>
  Entries are compared by sequence number. With the library's order on options and on
  functions, \<open>m \<le> m'\<close> then says that no key has lost its entry or gone back to an older
  version from \<open>m\<close> to \<open>m'\<close>.
\<close>

instantiation entry_ext :: (type) preorder
begin

definition less_eq_entry_ext :: "'a entry_scheme \<Rightarrow> 'a entry_scheme \<Rightarrow> bool" where
  "less_eq_entry_ext a b \<longleftrightarrow> e_seq a \<le> e_seq b"

definition less_entry_ext :: "'a entry_scheme \<Rightarrow> 'a entry_scheme \<Rightarrow> bool" where
  "less_entry_ext a b \<longleftrightarrow> e_seq a < e_seq b"

instance
  by standard (auto simp: less_eq_entry_ext_def less_entry_ext_def)

end

type_synonym versions = "key \<rightharpoonup> entry"

section \<open>Last writer wins\<close>

definition covers :: "versions \<Rightarrow> op \<Rightarrow> bool" where
  "covers m x \<longleftrightarrow> (\<exists>e. m (op_key x) = Some e \<and> op_seq x \<le> e_seq e)"

definition lww :: "op \<Rightarrow> versions \<Rightarrow> versions" where
  "lww x m = (if covers m x then m else m(op_key x \<mapsto> entry_of x))"

definition replay :: "op list \<Rightarrow> versions" where
  "replay xs = fold lww xs Map.empty"

lemma lww_covered [simp]: "covers m x \<Longrightarrow> lww x m = m"
  by (simp add: lww_def)

lemma covers_lww [simp]: "covers (lww x m) x"
  by (simp add: lww_def covers_def)

lemma lww_other [simp]: "k \<noteq> op_key x \<Longrightarrow> lww x m k = m k"
  by (simp add: lww_def)

lemma lww_increasing: "m \<le> lww x m"
proof (rule le_funI)
  fix k
  show "m k \<le> lww x m k"
  proof (cases "m k")
    case (Some e)
    then show ?thesis
      by (auto simp: lww_def covers_def less_eq_entry_ext_def)
  qed simp
qed

lemma lww_fold_increasing: "m \<le> fold lww xs m"
proof (induction xs arbitrary: m)
  case (Cons x xs)
  have "m \<le> lww x m" by (rule lww_increasing)
  also have "\<dots> \<le> fold lww xs (lww x m)" by (rule Cons.IH)
  finally show ?case by simp
qed simp

lemma covers_mono: "m \<le> m' \<Longrightarrow> covers m x \<Longrightarrow> covers m' x"
proof -
  assume le: "m \<le> m'" and "covers m x"
  then obtain e where e: "m (op_key x) = Some e" "op_seq x \<le> e_seq e"
    by (auto simp: covers_def)
  from le have "m (op_key x) \<le> m' (op_key x)" by (rule le_funD)
  with e show ?thesis
    by (cases "m' (op_key x)") (auto simp: covers_def less_eq_entry_ext_def)
qed

lemma covers_fold: "x \<in> set xs \<Longrightarrow> covers (fold lww xs m) x"
proof (induction xs arbitrary: m)
  case (Cons y ys)
  then show ?case
    using covers_mono [OF lww_fold_increasing, of "lww x m" x ys] by auto
qed simp

lemma fold_lww_absorbed: "\<forall>x \<in> set xs. covers m x \<Longrightarrow> fold lww xs m = m"
  by (induction xs) auto

lemma dom_lww: "dom (lww x m) = insert (op_key x) (dom m)"
  by (auto simp: lww_def covers_def)

lemma dom_fold_lww: "dom (fold lww xs m) = op_key ` set xs \<union> dom m"
  by (induction xs arbitrary: m) (auto simp: dom_lww)

lemma lww_entry:
  "lww x m k = Some e \<Longrightarrow> m k = Some e \<or> (k = op_key x \<and> e = entry_of x)"
  by (auto simp: lww_def split: if_splits)

lemma fold_lww_entry:
  "fold lww xs m k = Some e \<Longrightarrow> m k = Some e \<or> (\<exists>x \<in> set xs. op_key x = k \<and> e = entry_of x)"
proof (induction xs arbitrary: m)
  case (Cons y ys)
  then show ?case using lww_entry by fastforce
qed simp

lemma fold_lww_other: "\<forall>x \<in> set xs. op_key x \<noteq> k \<Longrightarrow> fold lww xs m k = m k"
  by (induction xs arbitrary: m) auto

lemma fold_lww_newest:
  assumes "m k = Some e" "\<forall>x \<in> set xs. op_key x = k \<longrightarrow> op_seq x \<le> e_seq e"
  shows "fold lww xs m k = Some e"
  using assms
proof (induction xs arbitrary: m)
  case (Cons x xs)
  then have "lww x m k = Some e" by (cases "op_key x = k") (auto simp: lww_def covers_def)
  with Cons show ?case by simp
qed simp

text \<open>The entry of a key after a replay is that of an operation on the key, and none is newer.\<close>

lemma replay_latest:
  assumes "replay xs k = Some e"
  shows "\<exists>x \<in> set xs. op_key x = k \<and> e = entry_of x
     \<and> (\<forall>y \<in> set xs. op_key y = k \<longrightarrow> op_seq y \<le> op_seq x)"
proof -
  obtain x where x: "x \<in> set xs" "op_key x = k" "e = entry_of x"
    using fold_lww_entry [of xs Map.empty k e] assms by (auto simp: replay_def)
  have "op_seq y \<le> op_seq x" if "y \<in> set xs" "op_key y = k" for y
    using covers_fold [OF that(1), of Map.empty] that assms x
    by (simp add: covers_def replay_def)
  with x show ?thesis by blast
qed

lemma replay_None: "replay xs k = None \<longleftrightarrow> (\<forall>x \<in> set xs. op_key x \<noteq> k)"
  using dom_fold_lww [of xs Map.empty] unfolding replay_def by (force simp: domIff)

section \<open>Convergence\<close>

text \<open>Operations agree when two of them with the same key and number say the same.\<close>

definition agree :: "op set \<Rightarrow> bool" where
  "agree A \<longleftrightarrow> (\<forall>x \<in> A. \<forall>y \<in> A. op_key x = op_key y \<and> op_seq x = op_seq y \<longrightarrow> entry_of x = entry_of y)"

lemma agree_subset: "agree A \<Longrightarrow> B \<subseteq> A \<Longrightarrow> agree B"
  unfolding agree_def by blast

lemma agreeD: "agree A \<Longrightarrow> x \<in> A \<Longrightarrow> y \<in> A \<Longrightarrow> op_key x = op_key y \<Longrightarrow> op_seq x = op_seq y
    \<Longrightarrow> entry_of x = entry_of y"
  unfolding agree_def by blast

text \<open>What one operation does to the slot of its key.\<close>

definition slot :: "op \<Rightarrow> entry option \<Rightarrow> entry option" where
  "slot x v =
    (case v of None \<Rightarrow> Some (entry_of x)
     | Some e \<Rightarrow> if op_seq x \<le> e_seq e then Some e else Some (entry_of x))"

lemma lww_slot: "lww x m = m(op_key x := slot x (m (op_key x)))"
  by (cases "m (op_key x)") (auto simp: lww_def covers_def slot_def fun_upd_idem)

lemma slot_commute:
  assumes "op_seq x \<noteq> op_seq y \<or> entry_of x = entry_of y"
  shows "slot x (slot y v) = slot y (slot x v)"
proof (cases "op_seq x = op_seq y")
  case True
  with assms show ?thesis by (cases v) (simp_all add: slot_def)
next
  case False
  then consider "op_seq x < op_seq y" | "op_seq y < op_seq x" by (rule linorder_neqE)
  then show ?thesis
    by cases (cases v; simp add: slot_def)+
qed

lemma lww_commute:
  assumes "agree A" "x \<in> A" "y \<in> A"
  shows "lww x (lww y m) = lww y (lww x m)"
proof (cases "op_key x = op_key y")
  case True
  then have "slot x (slot y v) = slot y (slot x v)" for v
    using agreeD [OF assms] by (intro slot_commute) blast
  then show ?thesis using True by (simp add: lww_slot)
next
  case False
  then show ?thesis by (simp add: lww_slot fun_upd_twist)
qed

lemma lww_idem: "lww x (lww x m) = lww x m"
  by simp

lemma lww_comp_fun_idem_on: "agree A \<Longrightarrow> comp_fun_idem_on A lww"
  by unfold_locales (auto simp: fun_eq_iff intro: lww_commute [THEN fun_cong])

lemma fold_lww_set_eq:
  assumes "agree (set xs)" "set xs = set ys"
  shows "fold lww xs m = fold lww ys m"
  using comp_fun_idem_on.fold_set_fold [OF lww_comp_fun_idem_on [OF assms(1)], of xs m]
    comp_fun_idem_on.fold_set_fold [OF lww_comp_fun_idem_on [OF assms(1)], of ys m] assms(2)
  by simp

section \<open>The contract of a replica\<close>

text \<open>
  A replica applies operations one after the other. Each application has an outcome of its
  own on the disk (the \<open>'io\<close> argument) that the contract does not depend on.
\<close>

definition deliver :: "('io \<Rightarrow> op \<Rightarrow> 's \<Rightarrow> 's) \<Rightarrow> ('io \<times> op) list \<Rightarrow> 's \<Rightarrow> 's" where
  "deliver apply_op ds s = fold (\<lambda>(i, x). apply_op i x) ds s"

lemma deliver_simps [simp]:
  "deliver f [] s = s" "deliver f ((i, x) # ds) s = deliver f ds (f i x s)"
  "deliver f (ds @ es) s = deliver f es (deliver f ds s)"
  by (simp_all add: deliver_def)

locale replica =
  fixes apply_op :: "'io \<Rightarrow> op \<Rightarrow> 's \<Rightarrow> 's"
    and view :: "'s \<Rightarrow> versions"
  assumes view_apply: "view (apply_op i x s) = lww x (view s)"
begin

lemma view_deliver: "view (deliver apply_op ds s) = fold lww (map snd ds) (view s)"
  by (induction ds arbitrary: s) (auto simp: view_apply)

lemma view_increasing: "view s \<le> view (deliver apply_op ds s)"
  by (simp add: view_deliver lww_fold_increasing)

lemma convergence:
  assumes "agree (snd ` set ds)" "snd ` set ds = snd ` set es" "view s = view t"
  shows "view (deliver apply_op ds s) = view (deliver apply_op es t)"
  using fold_lww_set_eq [of "map snd ds" "map snd es" "view t"] assms by (simp add: view_deliver)

lemma redelivery:
  "x \<in> snd ` set ds \<Longrightarrow> view (apply_op i x (deliver apply_op ds s)) = view (deliver apply_op ds s)"
  using covers_fold [of x "map snd ds" "view s"] by (simp add: view_apply view_deliver)

end

text \<open>
  A replica that can report how far it got, and a log that can be asked for what follows:
  the recovery protocol between a chunk server and the master.
\<close>

locale recovery = replica apply_op view
  for apply_op :: "'io \<Rightarrow> op \<Rightarrow> 's \<Rightarrow> 's" and view :: "'s \<Rightarrow> versions" +
  fixes last_seq :: "'s \<Rightarrow> uint64"
    and log_ops :: "'l \<Rightarrow> op list"
    and log_after :: "'l \<Rightarrow> uint64 \<Rightarrow> op list"
  assumes log_after: "log_after l n = filter (\<lambda>x. n < op_seq x) (log_ops l)"
begin

lemma recover_replays_log:
  assumes ag: "agree (set (log_ops l))"
    and gap: "\<forall>x \<in> set (log_ops l). op_seq x \<le> last_seq s \<longrightarrow> covers (view s) x"
    and ds: "map snd ds = log_after l (last_seq s)"
  shows "view (deliver apply_op ds s) = fold lww (log_ops l) (view s)"
proof -
  let ?old = "filter (\<lambda>x. \<not> last_seq s < op_seq x) (log_ops l)"
  let ?new = "filter (\<lambda>x. last_seq s < op_seq x) (log_ops l)"
  have "set (log_ops l) = set (?old @ ?new)" by auto
  then have "fold lww (log_ops l) (view s) = fold lww (?old @ ?new) (view s)"
    using ag fold_lww_set_eq by blast
  also have "\<dots> = fold lww ?new (fold lww ?old (view s))" by simp
  also have "fold lww ?old (view s) = view s"
    using gap by (intro fold_lww_absorbed) (auto simp: not_less)
  finally show ?thesis by (simp add: view_deliver log_after ds)
qed

lemma recover_covers:
  assumes "\<forall>x \<in> set (log_ops l). op_seq x \<le> last_seq s \<longrightarrow> covers (view s) x"
    and "map snd ds = log_after l (last_seq s)" "x \<in> set (log_ops l)"
  shows "covers (view (deliver apply_op ds s)) x"
proof (cases "op_seq x \<le> last_seq s")
  case True
  then show ?thesis
    using assms covers_mono [OF view_increasing] by blast
next
  case False
  then show ?thesis
    using assms by (simp add: view_deliver log_after covers_fold)
qed

lemma recover_replay:
  assumes "agree (set (log_ops l))"
    and "\<forall>x \<in> set (log_ops l). op_seq x \<le> last_seq s \<longrightarrow> covers (view s) x"
    and "map snd ds = log_after l (last_seq s)"
    and "view s = replay ys" "set ys \<subseteq> set (log_ops l)"
  shows "view (deliver apply_op ds s) = replay (log_ops l)"
proof -
  have "fold lww (log_ops l) (view s) = fold lww (ys @ log_ops l) Map.empty"
    using assms(4) by (simp add: replay_def)
  also have "\<dots> = replay (log_ops l)"
    unfolding replay_def using assms(1,5)
    by (intro fold_lww_set_eq) (auto simp: Un_absorb1)
  finally show ?thesis using recover_replays_log [OF assms(1-3)] by simp
qed

end

text \<open>The specification is itself a replica.\<close>

interpretation spec: replica "\<lambda>_::unit. lww" "\<lambda>m. m"
  by unfold_locales simp

end
