(* ===== verification/Disk.thy ===== *)
theory Disk
  imports Prelude
begin

text \<open>
  The disk as the program uses it (\<open>os.WriteFile\<close>, \<open>os.ReadFile\<close> and \<open>encoding/json\<close>).

  A file holds either exactly what \<open>json.Marshal\<close> wrote for a value of the program, or bytes
  that are not such a document, as an interrupted write leaves them; \<open>json.Unmarshal\<close> gives
  the value back in the first case and fails without decoding anything in the second. Every
  write takes its outcome as an argument: success, failure with the file as before, or failure
  with the file damaged. The text of an error is the operating system's.
\<close>

datatype 'a content = Json 'a | Torn

datatype io = IoOk | IoFail string | IoTorn string

text \<open>Writing one file of a directory.\<close>

fun write_file :: "io \<Rightarrow> string \<Rightarrow> 'a \<Rightarrow> (string \<rightharpoonup> 'a content) \<Rightarrow> string option \<times> (string \<rightharpoonup> 'a content)" where
  "write_file IoOk name x d = (None, d(name \<mapsto> Json x))"
| "write_file (IoFail msg) name x d = (Some msg, d)"
| "write_file (IoTorn msg) name x d = (Some msg, d(name \<mapsto> Torn))"

text \<open>Writing a component's only file, which may not exist yet.\<close>

fun write_content :: "io \<Rightarrow> 'a \<Rightarrow> 'a content option \<Rightarrow> string option \<times> 'a content option" where
  "write_content IoOk x c = (None, Some (Json x))"
| "write_content (IoFail msg) x c = (Some msg, c)"
| "write_content (IoTorn msg) x c = (Some msg, Some Torn)"

lemma write_file_other [frame_simps]:
  "f \<noteq> name \<Longrightarrow> snd (write_file io name x d) f = d f"
  by (cases io) simp_all

lemma write_content_None [simp]: "fst (write_content io x c) = None \<longleftrightarrow> io = IoOk"
  by (cases io) simp_all

lemma write_file_None [simp]: "fst (write_file io name x d) = None \<longleftrightarrow> io = IoOk"
  by (cases io) simp_all

end
