(* ===== verification/Chunk_Store.thy ===== *)
theory Chunk_Store
  imports Filenames Versions Disk
begin

text \<open>
  The on-disk key/value store of a chunk server (\<open>pkg/chunk/store.go\<close>): the entries in
  memory, the highest sequence number seen, and the directory with one JSON file per key.

  An entry's three fields are bytes, a number and a flag, which JSON gives back unchanged.
\<close>

section \<open>The store and its operations\<close>

record store =
  st_files :: "string \<rightharpoonup> entry content"
  st_entries :: versions
  st_last :: uint64

definition persist_entry :: "io \<Rightarrow> key \<Rightarrow> entry \<Rightarrow> store \<Rightarrow> string option \<times> store" where
  "persist_entry io key e s =
    (case write_file io (entry_file key) e (st_files s) of
       (err, files) \<Rightarrow> (err, s\<lparr>st_files := files\<rparr>))"

definition put :: "io \<Rightarrow> key \<Rightarrow> bytes \<Rightarrow> uint64 \<Rightarrow> store \<Rightarrow> string option \<times> store" where
  "put io key value seqNum s =
    (if (case st_entries s key of Some existing \<Rightarrow> seqNum \<le> e_seq existing | None \<Rightarrow> False)
     then (None, s)
     else
       let e = \<lparr>e_value = value, e_seq = seqNum, e_deleted = False\<rparr>;
           s = s\<lparr>st_entries := (st_entries s)(key \<mapsto> e)\<rparr>;
           s = (if seqNum > st_last s then s\<lparr>st_last := seqNum\<rparr> else s)
       in persist_entry io key e s)"

definition delete :: "io \<Rightarrow> key \<Rightarrow> uint64 \<Rightarrow> store \<Rightarrow> string option \<times> store" where
  "delete io key seqNum s =
    (if (case st_entries s key of Some existing \<Rightarrow> seqNum \<le> e_seq existing | None \<Rightarrow> False)
     then (None, s)
     else
       let e = \<lparr>e_value = [], e_seq = seqNum, e_deleted = True\<rparr>;
           s = s\<lparr>st_entries := (st_entries s)(key \<mapsto> e)\<rparr>;
           s = (if seqNum > st_last s then s\<lparr>st_last := seqNum\<rparr> else s)
       in persist_entry io key e s)"

definition get :: "store \<Rightarrow> key \<Rightarrow> entry option" where
  "get s key =
    (case st_entries s key of
       None \<Rightarrow> None
     | Some e \<Rightarrow> if e_deleted e then None else Some e)"

definition last_seq_num :: "store \<Rightarrow> uint64" where
  "last_seq_num s = st_last s"

text \<open>\<open>ks\<close> is the order in which \<open>range s.entries\<close> visits the keys.\<close>

definition keys_with_prefix :: "key list \<Rightarrow> string \<Rightarrow> store \<Rightarrow> key list" where
  "keys_with_prefix ks pre s =
    filter (\<lambda>k. case st_entries s k of
                  Some e \<Rightarrow> \<not> e_deleted e \<and> has_prefix k pre
                | None \<Rightarrow> False) ks"

definition all_entries :: "key list \<Rightarrow> store \<Rightarrow> versions" where
  "all_entries ks s = fold (\<lambda>k cp. cp(k := st_entries s k)) ks Map.empty"

section \<open>Opening a store\<close>

definition has_json_ext :: "string \<Rightarrow> bool" where
  "has_json_ext f \<longleftrightarrow> suffix json_ext f"

text \<open>
  \<open>load_from_disk rd fs s\<close> is the loop over the file names \<open>fs\<close> that the glob found;
  \<open>rd f\<close> is the error of reading \<open>f\<close>, if there is one.
\<close>

fun load_from_disk :: "(string \<Rightarrow> string option) \<Rightarrow> string list \<Rightarrow> store \<Rightarrow> string + store" where
  "load_from_disk rd [] s = Inr s"
| "load_from_disk rd (f # fs) s =
    (case rd f of
       Some err \<Rightarrow> Inl err
     | None \<Rightarrow>
       (case st_files s f of
          Some (Json e) \<Rightarrow>
            let key = key_from_filename f;
                s = s\<lparr>st_entries := (st_entries s)(key \<mapsto> e)\<rparr>;
                s = (if e_seq e > st_last s then s\<lparr>st_last := e_seq e\<rparr> else s)
            in load_from_disk rd fs s
        | Some Torn \<Rightarrow> Inl (''corrupt file '' @ f)
        | None \<Rightarrow> Inl (''open '' @ f)))"

definition new_store ::
  "string option \<Rightarrow> (string \<Rightarrow> string option) \<Rightarrow> string list \<Rightarrow> (string \<rightharpoonup> entry content) \<Rightarrow> string + store" where
  "new_store mkdir_err rd listing files =
    (case mkdir_err of
       Some err \<Rightarrow> Inl err
     | None \<Rightarrow>
       load_from_disk rd (filter has_json_ext listing)
         \<lparr>st_files = files, st_entries = Map.empty, st_last = 0\<rparr>)"

definition empty_store :: store where
  "empty_store = \<lparr>st_files = Map.empty, st_entries = Map.empty, st_last = 0\<rparr>"

text \<open>
  The dispatch of \<open>handleReplicate\<close> and of the recovery loop: an operation is a deletion or a
  write.
\<close>

definition store_apply_result :: "io \<Rightarrow> op \<Rightarrow> store \<Rightarrow> string option \<times> store" where
  "store_apply_result io x s =
    (if op_delete x then delete io (op_key x) (op_seq x) s
     else put io (op_key x) (op_value x) (op_seq x) s)"

definition store_apply :: "io \<Rightarrow> op \<Rightarrow> store \<Rightarrow> store" where
  "store_apply io x s = snd (store_apply_result io x s)"

section \<open>What the operations do\<close>

lemma persist_entry_simps [simp]:
  "st_entries (snd (persist_entry io k e s)) = st_entries s"
  "st_last (snd (persist_entry io k e s)) = st_last s"
  "st_files (snd (persist_entry io k e s)) = snd (write_file io (entry_file k) e (st_files s))"
  "fst (persist_entry io k e s) = fst (write_file io (entry_file k) e (st_files s))"
  by (simp_all add: persist_entry_def split: prod.splits)

definition put_op :: "key \<Rightarrow> bytes \<Rightarrow> uint64 \<Rightarrow> op" where
  "put_op k v n = \<lparr>op_key = k, op_value = v, op_seq = n, op_delete = False\<rparr>"

definition delete_op :: "key \<Rightarrow> uint64 \<Rightarrow> op" where
  "delete_op k n = \<lparr>op_key = k, op_value = [], op_seq = n, op_delete = True\<rparr>"

lemma op_simps [simp]:
  "op_key (put_op k v n) = k" "op_seq (put_op k v n) = n" "op_delete (put_op k v n) = False"
  "op_value (put_op k v n) = v"
  "op_key (delete_op k n) = k" "op_seq (delete_op k n) = n" "op_delete (delete_op k n) = True"
  "op_value (delete_op k n) = []"
  by (simp_all add: put_op_def delete_op_def)

lemma put_is_apply: "put io k v n s = store_apply_result io (put_op k v n) s"
  by (simp add: store_apply_result_def)

lemma delete_is_apply: "delete io k n s = store_apply_result io (delete_op k n) s"
  by (simp add: store_apply_result_def)

text \<open>Both operations, in one equation.\<close>

lemma store_apply_result_eq:
  "store_apply_result io x s =
    (if covers (st_entries s) x then (None, s)
     else persist_entry io (op_key x) (entry_of x)
       (s\<lparr>st_entries := (st_entries s)(op_key x \<mapsto> entry_of x), st_last := max (st_last s) (op_seq x)\<rparr>))"
  by (auto simp: store_apply_result_def put_def delete_def covers_def entry_of_def Let_def max_def
      split: option.splits)

lemma entries_apply [view_simps]:
  "st_entries (snd (store_apply_result io x s)) = lww x (st_entries s)"
  by (simp add: store_apply_result_eq lww_def)

lemma last_apply [view_simps]:
  "st_last (snd (store_apply_result io x s)) =
    (if covers (st_entries s) x then st_last s else max (st_last s) (op_seq x))"
  by (simp add: store_apply_result_eq)

lemma error_apply [view_simps]:
  "fst (store_apply_result io x s) =
    (if covers (st_entries s) x then None
     else case io of IoOk \<Rightarrow> None | IoFail m \<Rightarrow> Some m | IoTorn m \<Rightarrow> Some m)"
  by (cases io) (simp_all add: store_apply_result_eq)

lemma files_apply_ok [view_simps]:
  "st_files (snd (store_apply_result IoOk x s)) =
    (if covers (st_entries s) x then st_files s
     else (st_files s)(entry_file (op_key x) \<mapsto> Json (entry_of x)))"
  by (simp add: store_apply_result_eq)

interpretation store: replica store_apply st_entries
  by unfold_locales (simp add: store_apply_def entries_apply)

lemma get_lww:
  "get (snd (store_apply_result io x s)) (op_key x) =
    (if covers (st_entries s) x then get s (op_key x)
     else if op_delete x then None else Some (entry_of x))"
  by (simp add: get_def entries_apply lww_def)

section \<open>The store's invariant\<close>

definition store_inv :: "store \<Rightarrow> bool" where
  "store_inv s \<longleftrightarrow> finite (dom (st_entries s))
     \<and> (\<forall>e \<in> ran (st_entries s). e_seq e \<le> st_last s)
     \<and> (st_last s = 0 \<or> (\<exists>e \<in> ran (st_entries s). e_seq e = st_last s))"

lemma store_inv_empty: "store_inv empty_store"
  by (simp add: store_inv_def empty_store_def)

lemma store_inv_apply:
  assumes "store_inv s"
  shows "store_inv (snd (store_apply_result io x s))"
proof (cases "covers (st_entries s) x")
  case True
  with assms show ?thesis by (simp add: store_apply_result_eq)
next
  case False
  let ?m = "(st_entries s)(op_key x \<mapsto> entry_of x)"
  have bound: "\<forall>e \<in> ran ?m. e_seq e \<le> max (st_last s) (op_seq x)"
    using assms by (auto simp: store_inv_def ran_def le_max_iff_disj split: if_splits)
  have "max (st_last s) (op_seq x) = 0 \<or> (\<exists>e \<in> ran ?m. e_seq e = max (st_last s) (op_seq x))"
  proof (cases "op_seq x < st_last s")
    case True
    then obtain k e where e: "st_entries s k = Some e" "e_seq e = st_last s"
      using assms by (auto simp: store_inv_def ran_def)
    with True False have "k \<noteq> op_key x" by (auto simp: covers_def)
    with e have "e \<in> ran ?m" by (auto simp: ran_def)
    with e True show ?thesis by (auto simp: max_def)
  next
    case False
    have "entry_of x \<in> ran ?m" by (auto simp: ran_def)
    with False show ?thesis by (auto simp: max_def not_less intro!: bexI [of _ "entry_of x"])
  qed
  with bound False assms show ?thesis
    by (simp add: store_inv_def entries_apply last_apply lww_def)
qed

text \<open>The disk agrees with the memory.\<close>

definition durable :: "store \<Rightarrow> bool" where
  "durable s \<longleftrightarrow> (\<forall>k \<in> dom (st_entries s). good_key k)
     \<and> dom (st_files s) = entry_file ` dom (st_entries s)
     \<and> (\<forall>k e. st_entries s k = Some e \<longrightarrow> st_files s (entry_file k) = Some (Json e))"

lemma durable_empty: "durable empty_store"
  by (simp add: durable_def empty_store_def)

lemma durable_apply:
  assumes "durable s" "good_key (op_key x)"
  shows "durable (snd (store_apply_result IoOk x s))"
proof (cases "covers (st_entries s) x")
  case False
  with assms show ?thesis
    by (auto simp: durable_def entries_apply files_apply_ok lww_def entry_file_good_inject domI)
qed (use assms in \<open>simp add: store_apply_result_eq\<close>)

section \<open>Restart\<close>

lemma has_json_ext_entry_file [simp]: "has_json_ext (entry_file k)"
  by (simp add: has_json_ext_def entry_file_def suffix_def)

text \<open>
  One pass over files that hold the entries \<open>E\<close> of good keys: the memory gains exactly those
  entries, and the counter is the highest number seen.
\<close>

lemma load_from_disk_good:
  assumes "set fs \<subseteq> entry_file ` dom E"
    and "\<And>k. k \<in> dom E \<Longrightarrow> good_key k"
    and "\<And>k e. E k = Some e \<Longrightarrow> st_files s (entry_file k) = Some (Json e)"
  shows "\<exists>t. load_from_disk (\<lambda>_. None) fs s = Inr t
     \<and> st_files t = st_files s
     \<and> st_entries t = st_entries s ++ (E |` {k. entry_file k \<in> set fs \<and> k \<in> dom E})
     \<and> (\<forall>n. st_last t \<le> n \<longleftrightarrow>
            st_last s \<le> n \<and> (\<forall>k e. E k = Some e \<and> entry_file k \<in> set fs \<longrightarrow> e_seq e \<le> n))"
  using assms
proof (induction fs arbitrary: s)
  case Nil
  have "E |` {k. entry_file k \<in> set [] \<and> k \<in> dom E} = Map.empty"
    by (auto simp: restrict_map_def)
  then show ?case by simp
next
  case (Cons f fs)
  then obtain k e where k: "E k = Some e" "f = entry_file k" by auto
  then have good: "good_key k" using Cons.prems(2) by auto
  have inj: "entry_file k' = entry_file k \<longleftrightarrow> k' = k" if "E k' = Some e'" for k' e'
    using that good Cons.prems(2) entry_file_good_inject by blast
  define s' where "s' = s\<lparr>st_entries := (st_entries s)(k \<mapsto> e), st_last := max (st_last s) (e_seq e)\<rparr>"
  have step: "load_from_disk (\<lambda>_. None) (f # fs) s = load_from_disk (\<lambda>_. None) fs s'"
    using k Cons.prems(3) unsanitize_sanitize_good [OF good]
    by (cases "st_last s < e_seq e") (auto simp: Let_def s'_def max_def dest: less_imp_le)
  have "set fs \<subseteq> entry_file ` dom E" using Cons.prems(1) by simp
  moreover have "st_files s' (entry_file k) = Some (Json e)" if "E k = Some e" for k e
    using Cons.prems(3) that by (simp add: s'_def)
  ultimately obtain t where t: "load_from_disk (\<lambda>_. None) fs s' = Inr t" "st_files t = st_files s"
    "st_entries t = st_entries s' ++ (E |` {k. entry_file k \<in> set fs \<and> k \<in> dom E})"
    "\<And>n. st_last t \<le> n \<longleftrightarrow> st_last s' \<le> n
       \<and> (\<forall>k e. E k = Some e \<and> entry_file k \<in> set fs \<longrightarrow> e_seq e \<le> n)"
    using Cons.IH [of s'] Cons.prems(2) by (auto simp: s'_def simp del: fun_upd_apply)
  have "st_entries t = st_entries s ++ (E |` {k. entry_file k \<in> set (f # fs) \<and> k \<in> dom E})"
  proof
    fix k'
    show "st_entries t k' = (st_entries s ++ (E |` {k. entry_file k \<in> set (f # fs) \<and> k \<in> dom E})) k'"
      using t(3) k inj [of k'] by (cases "E k'") (auto simp: map_add_def restrict_map_def s'_def)
  qed
  moreover have "st_last t \<le> n \<longleftrightarrow> st_last s \<le> n
      \<and> (\<forall>k e. E k = Some e \<and> entry_file k \<in> set (f # fs) \<longrightarrow> e_seq e \<le> n)" for n
    using t(4) [of n] k inj by (auto simp: s'_def)
  ultimately show ?case using step t(1,2) by auto
qed

lemma new_store_durable:
  assumes dur: "durable s" and inv: "store_inv s" and ls: "range_order (st_files s) ls"
  shows "new_store None (\<lambda>_. None) ls (st_files s) = Inr s"
proof -
  let ?E = "st_entries s"
  let ?s0 = "\<lparr>st_files = st_files s, st_entries = Map.empty, st_last = 0\<rparr>"
  have set_ls: "set ls = entry_file ` dom ?E"
    using ls dur by (simp add: range_order_def durable_def)
  then have all_json: "filter has_json_ext ls = ls"
    by (intro filter_True) auto
  obtain t where t: "load_from_disk (\<lambda>_. None) ls ?s0 = Inr t" "st_files t = st_files s"
    "st_entries t = ?E |` {k. entry_file k \<in> set ls \<and> k \<in> dom ?E}"
    "\<forall>n. st_last t \<le> n \<longleftrightarrow> (\<forall>k e. ?E k = Some e \<and> entry_file k \<in> set ls \<longrightarrow> e_seq e \<le> n)"
    using load_from_disk_good [of ls ?E ?s0] dur set_ls by (auto simp: durable_def)
  have "st_entries t = ?E"
  proof
    fix k
    show "st_entries t k = ?E k"
      by (cases "?E k") (auto simp: t(3) set_ls restrict_map_def)
  qed
  moreover have "st_last t \<le> n \<longleftrightarrow> st_last s \<le> n" for n
  proof -
    have "st_last t \<le> n \<longleftrightarrow> (\<forall>e \<in> ran ?E. e_seq e \<le> n)"
      using t(4) set_ls by (force simp: ran_def)
    also have "\<dots> \<longleftrightarrow> st_last s \<le> n"
      using inv by (auto simp: store_inv_def intro: order_trans)
    finally show ?thesis .
  qed
  then have "st_last t = st_last s" by (metis order_antisym order_refl)
  ultimately have "t = s" using t(2) by simp
  then show ?thesis using t(1) all_json by (simp add: new_store_def)
qed

section \<open>Runs of operations\<close>

lemma all_entries_order:
  assumes "range_order (st_entries s) ks"
  shows "all_entries ks s = st_entries s"
proof -
  have gen: "fold (\<lambda>k cp. cp(k := E k)) ks m k = (if k \<in> set ks then E k else m k)"
    for E m :: versions and k
    by (induction ks arbitrary: m) simp_all
  show ?thesis
  proof
    fix k
    have "k \<in> set ks \<longleftrightarrow> st_entries s k \<noteq> None"
      using assms by (simp add: range_order_def domIff)
    then show "all_entries ks s k = st_entries s k"
      by (auto simp: all_entries_def gen)
  qed
qed

lemma store_inv_deliver: "store_inv s \<Longrightarrow> store_inv (deliver store_apply ds s)"
  unfolding deliver_def by (rule fold_invariant_set [where P = store_inv]) (auto simp: store_apply_def store_inv_apply)

lemma durable_deliver:
  assumes "durable s" "\<forall>d \<in> set ds. fst d = IoOk \<and> good_key (op_key (snd d))"
  shows "durable (deliver store_apply ds s)"
  unfolding deliver_def
  by (rule fold_invariant_set [where P = durable]) (use assms in \<open>auto simp: store_apply_def durable_apply\<close>)

lemma st_last_apply_increasing: "st_last s \<le> st_last (store_apply io x s)"
  by (simp add: store_apply_def last_apply)

lemma st_last_deliver_increasing: "st_last s \<le> st_last (deliver store_apply ds s)"
proof (induction ds arbitrary: s)
  case (Cons d ds)
  then have "st_last (store_apply (fst d) (snd d) s) \<le> st_last (deliver store_apply (d # ds) s)"
    by (cases d) simp
  with st_last_apply_increasing show ?case by (rule order_trans)
qed simp

lemma get_put:
  "get (snd (put io k v n s)) k' =
    (if k' = k \<and> \<not> covers (st_entries s) (put_op k v n) then Some \<lparr>e_value = v, e_seq = n, e_deleted = False\<rparr>
     else get s k')"
  by (auto simp: put_is_apply get_def entries_apply lww_def entry_of_def)

lemma get_delete:
  "get (snd (delete io k n s)) k' =
    (if k' = k \<and> \<not> covers (st_entries s) (delete_op k n) then None else get s k')"
  by (auto simp: delete_is_apply get_def entries_apply lww_def)

lemma store_inv_max:
  assumes "store_inv s"
  shows "st_last s = Max (insert 0 (e_seq ` ran (st_entries s)))"
proof -
  have "finite (ran (st_entries s))"
    using assms by (simp add: store_inv_def finite_ran)
  then show ?thesis
    using assms by (intro sym [OF Max_eqI]) (auto simp: store_inv_def intro: rev_image_eqI)
qed

section \<open>Properties\<close>

text \<open>Claim C30. Whatever the disk does, \<open>Put\<close> and \<open>Delete\<close> change the entries in memory exactly as
  the last-writer-wins specification says: a version that is not newer than the stored one is
  ignored, any other replaces it, and no other key is touched.\<close>

theorem store_refines_last_writer_wins:
  "st_entries (snd (put io k v n s)) = lww (put_op k v n) (st_entries s)
    \<and> st_entries (snd (delete io k n s)) = lww (delete_op k n) (st_entries s)"
  by (simp add: put_is_apply delete_is_apply entries_apply)

text \<open>What a read returns after a write or a deletion: the written value (or nothing, for a
  deletion) when the number is newer than the stored version of that key, and what it returned
  before in every other case.\<close>

theorem get_after_put_and_delete:
  "get (snd (put io k v n s)) k' =
     (if k' = k \<and> (case st_entries s k of None \<Rightarrow> True | Some e \<Rightarrow> e_seq e < n)
      then Some \<lparr>e_value = v, e_seq = n, e_deleted = False\<rparr> else get s k')
   \<and> get (snd (delete io k n s)) k' =
     (if k' = k \<and> (case st_entries s k of None \<Rightarrow> True | Some e \<Rightarrow> e_seq e < n)
      then None else get s k')"
  by (auto simp: get_put get_delete covers_def split: option.splits)

text \<open>Claim C29. Two stores with the same entries that receive the same set of operations, in any order,
  with any repetitions and with any failures of their disks, end with the same entries, provided
  operations with the same key and number say the same.\<close>

theorem stores_converge:
  assumes "agree (snd ` set ds)" "snd ` set ds = snd ` set es" "st_entries s = st_entries t"
  shows "st_entries (deliver store_apply ds s) = st_entries (deliver store_apply es t)"
  using assms by (rule store.convergence)

theorem stores_converge_witness:
  "st_entries (deliver store_apply [(IoOk, put_op ''k'' [1] 1), (IoFail ''full'', delete_op ''k'' 2)] empty_store)
   = st_entries (deliver store_apply [(IoOk, delete_op ''k'' 2), (IoOk, put_op ''k'' [1] 1),
       (IoOk, delete_op ''k'' 2)] empty_store)"
  by (rule stores_converge) (auto simp: agree_def)

text \<open>No operation makes a store forget a key or go back to an older version of one, and
  its sequence counter never decreases.\<close>

theorem store_never_goes_back:
  "st_entries s \<le> st_entries (deliver store_apply ds s)
    \<and> last_seq_num s \<le> last_seq_num (deliver store_apply ds s)"
  by (simp add: store.view_increasing st_last_deliver_increasing last_seq_num_def)

text \<open>The sequence number a store reports is the highest one among its entries, and 0
  when it has none, after any operations on an empty store.\<close>

theorem last_seq_is_highest:
  "last_seq_num (deliver store_apply ds empty_store)
    = Max (insert 0 (e_seq ` ran (st_entries (deliver store_apply ds empty_store))))"
  using store_inv_max [OF store_inv_deliver [OF store_inv_empty]] by (simp add: last_seq_num_def)

text \<open>Claim C31. A store whose disk accepted every write, with keys that survive the file names, is
  exactly restored by a restart: the same entries, deletions included, and the same counter.\<close>

theorem store_restart:
  assumes "\<forall>x \<in> set xs. good_key (op_key x)"
    and "s = deliver store_apply (map (Pair IoOk) xs) empty_store"
    and "range_order (st_files s) listing"
  shows "new_store None (\<lambda>_. None) listing (st_files s) = Inr s"
proof (rule new_store_durable)
  show "durable s"
    unfolding assms(2) using assms(1) by (intro durable_deliver durable_empty) auto
  show "store_inv s"
    unfolding assms(2) by (intro store_inv_deliver store_inv_empty)
qed (rule assms(3))

theorem store_restart_witness:
  "new_store None (\<lambda>_. None) [''bob_2fx.json'', ''bob_2fy.json'']
      (st_files (deliver store_apply (map (Pair IoOk)
         [put_op ''bob/x'' [7] 1, put_op ''bob/y'' [8] 2, delete_op ''bob/x'' 3]) empty_store))
    = Inr (deliver store_apply (map (Pair IoOk)
         [put_op ''bob/x'' [7] 1, put_op ''bob/y'' [8] 2, delete_op ''bob/x'' 3]) empty_store)"
proof (rule store_restart [OF _ refl])
  show "\<forall>x \<in> set [put_op ''bob/x'' [7] 1, put_op ''bob/y'' [8] 2, delete_op ''bob/x'' 3].
      good_key (op_key x)"
    by (simp add: good_key_def)
  have "entry_file ''bob/x'' = ''bob_2fx.json''" "entry_file ''bob/y'' = ''bob_2fy.json''"
    by (simp_all add: entry_file_def json_ext_def sanitize_eval)
  then show "range_order (st_files (deliver store_apply (map (Pair IoOk)
      [put_op ''bob/x'' [7] 1, put_op ''bob/y'' [8] 2, delete_op ''bob/x'' 3]) empty_store))
      [''bob_2fx.json'', ''bob_2fy.json'']"
    by (auto simp: range_order_def store_apply_def files_apply_ok empty_store_def covers_def
        entries_apply lww_def)
qed

text \<open>Claim C33. When the disk refuses a new version, the write is reported as failed but is served by
  every later read; a retry with the same number is then reported as successful without
  writing anything, and a restart brings back the store of before the write.\<close>

theorem failed_write_is_visible_but_lost:
  assumes "durable s" "store_inv s" "range_order (st_files s) listing"
    and fresh: "case st_entries s k of None \<Rightarrow> True | Some e \<Rightarrow> e_seq e < n"
    and s': "s' = snd (put (IoFail msg) k v n s)"
  shows "fst (put (IoFail msg) k v n s) = Some msg
    \<and> get s' k = Some \<lparr>e_value = v, e_seq = n, e_deleted = False\<rparr>
    \<and> put io k v n s' = (None, s')
    \<and> new_store None (\<lambda>_. None) listing (st_files s') = Inr s"
proof -
  have nc: "\<not> covers (st_entries s) (put_op k v n)"
    using fresh by (auto simp: covers_def split: option.splits)
  have files: "st_files s' = st_files s"
    unfolding s' using nc by (simp add: put_is_apply store_apply_result_eq)
  have cov: "covers (st_entries s') (put_op k v n)"
    unfolding s' by (simp add: put_is_apply entries_apply)
  show ?thesis
    using nc cov files new_store_durable [OF assms(1-3)]
    by (auto simp: put_is_apply error_apply s' get_lww entry_of_def
        store_apply_result_eq [of io _ "snd (store_apply_result (IoFail msg) (put_op k v n) s)"])
       (auto simp: get_def entries_apply lww_def entry_of_def)
qed

theorem failed_write_is_visible_but_lost_witness:
  "fst (put (IoFail ''disk full'') ''bob/x'' [7] 1 empty_store) = Some ''disk full''
    \<and> new_store None (\<lambda>_. None) []
        (st_files (snd (put (IoFail ''disk full'') ''bob/x'' [7] 1 empty_store))) = Inr empty_store"
  using failed_write_is_visible_but_lost [OF durable_empty store_inv_empty,
      where listing = "[]" and k = "''bob/x''" and n = 1 and msg = "''disk full''" and v = "[7]"]
  by (simp add: empty_store_def)

text \<open>Claim C34. A key with a character that file names escape, such as the slash of every vault key, shares its file with the key
  in which that character is spelled as its escape. A store that accepts both serves both, but the second
  write replaces the first one's file: after a restart the first key has the second one's value, and the second key is gone.\<close>

theorem escaped_keys_share_a_file:
  assumes "ascii u" "ascii v" "n < 128" "\<not> safe_rune n"
    and k: "k = u @ char_of n # v" "k' = u @ CHR ''_'' # hex02 n @ v"
    and s: "durable s" "store_inv s" "good_key k" "st_entries s k = None"
    and s': "s' = snd (put IoOk k' y q (snd (put IoOk k x p s)))" "range_order (st_files s') listing"
  shows "entry_file k' = entry_file k
    \<and> get s' k = Some \<lparr>e_value = x, e_seq = p, e_deleted = False\<rparr> \<and> get s' k' = Some \<lparr>e_value = y, e_seq = q, e_deleted = False\<rparr>
    \<and> (\<exists>t. new_store None (\<lambda>_. None) listing (st_files s') = Inr t
        \<and> get t k = Some \<lparr>e_value = y, e_seq = q, e_deleted = False\<rparr> \<and> get t k' = None)"
proof -
  have shared: "entry_file k' = entry_file k"
    unfolding entry_file_inject k by (rule sanitize_escape [OF assms(1-4)])
  have ne: "k' \<noteq> k"
  proof
    assume "k' = k"
    then have "length k' = length k" by simp
    then show False using assms(3) by (simp add: k hex02_byte)
  qed
  then have "\<not> good_key k'" using shared s(3) entry_file_good_inject by blast
  then have none: "st_entries s k' = None" using s(1) by (auto simp: durable_def)
  let ?t = "snd (put IoOk k y q s)"
  have files: "st_files s' = st_files ?t"
    using none s(4) ne shared by (simp add: s'(1) put_is_apply files_apply_ok entries_apply covers_def lww_def entry_of_def)
  have "durable ?t" "store_inv ?t"
    using s(1-3) by (simp_all add: put_is_apply durable_apply store_inv_apply)
  then have "new_store None (\<lambda>_. None) listing (st_files s') = Inr ?t"
    unfolding files using s'(2) by (intro new_store_durable) (simp_all add: files)
  moreover have "get ?t k = Some \<lparr>e_value = y, e_seq = q, e_deleted = False\<rparr> \<and> get ?t k' = None"
    using s(4) none ne by (simp add: get_put covers_def) (simp add: get_def)
  moreover have "get s' k = Some \<lparr>e_value = x, e_seq = p, e_deleted = False\<rparr> \<and> get s' k' = Some \<lparr>e_value = y, e_seq = q, e_deleted = False\<rparr>"
    using s(4) none ne by (simp add: s'(1) get_put) (simp add: put_is_apply entries_apply lww_def covers_def)
  ultimately show ?thesis using shared by blast
qed

theorem escaped_keys_share_a_file_witness:
  "\<exists>t. new_store None (\<lambda>_. None) [entry_file ''bob/a/b''] (st_files (snd (put IoOk ''bob/a_2fb'' [8] 2 (snd (put IoOk ''bob/a/b'' [7] 1 empty_store)))))
      = Inr t \<and> get t ''bob/a/b'' = Some \<lparr>e_value = [8], e_seq = 2, e_deleted = False\<rparr> \<and> get t ''bob/a_2fb'' = None"
proof -
  let ?s' = "snd (put IoOk ''bob/a_2fb'' [8] 2 (snd (put IoOk ''bob/a/b'' [7] 1 empty_store)))"
  have keys: "''bob/a/b'' = ''bob/a'' @ char_of (47 :: nat) # ''b''" "''bob/a_2fb'' = ''bob/a'' @ CHR ''_'' # hex02 47 @ ''b''"
    by (simp_all add: hex02_byte hex_digit_def char_of_eq_iff char_eq_char_of)
  have good: "good_key ''bob/a/b''" by (simp add: good_key_def)
  have "entry_file ''bob/a_2fb'' = entry_file ''bob/a/b''" by (simp add: entry_file_inject sanitize_eval)
  then have "range_order (st_files ?s') [entry_file ''bob/a/b'']"
    by (simp add: range_order_def put_is_apply files_apply_ok entries_apply lww_def empty_store_def covers_def)
  from escaped_keys_share_a_file [OF _ _ _ _ keys durable_empty store_inv_empty good _ refl this]
  show ?thesis by (simp add: safe_rune_def empty_store_def)
qed

text \<open>Listing by prefix returns every key with the prefix whose value a read would return,
  each once and nothing else, in whatever order the map is visited.\<close>

theorem keys_with_prefix_exact:
  assumes "range_order (st_entries s) ks"
  shows "distinct (keys_with_prefix ks p s)
    \<and> set (keys_with_prefix ks p s) = {k. has_prefix k p \<and> get s k \<noteq> None}"
  using assms by (auto simp: keys_with_prefix_def range_order_def get_def split: option.splits if_splits)

theorem keys_with_prefix_exact_witness:
  "set (keys_with_prefix [''bob/x'', ''eve/x''] ''bob/''
      (deliver store_apply [(IoOk, put_op ''bob/x'' [7] 1), (IoOk, put_op ''eve/x'' [8] 2)] empty_store))
    = {k. has_prefix k ''bob/'' \<and> get (deliver store_apply
        [(IoOk, put_op ''bob/x'' [7] 1), (IoOk, put_op ''eve/x'' [8] 2)] empty_store) k \<noteq> None}"
  by (rule conjunct2 [OF keys_with_prefix_exact])
     (auto simp: range_order_def store_apply_def entries_apply empty_store_def lww_def covers_def)

end
