(* ===== verification/Wal.thy ===== *)
theory Wal
  imports Go_Text Versions Disk
begin

text \<open>
  The master's write-ahead log (\<open>pkg/master/wal.go\<close>): the list of entries in memory and the
  one JSON file that every \<open>Append\<close> rewrites. Errors of the write are ignored by the code, and
  so are errors of decoding the file at start.
\<close>

record wal_entry =
  w_key :: key
  w_value :: bytes
  w_seq :: uint64
  w_delete :: bool

record wal =
  wal_entries :: "wal_entry list"
  wal_file :: "wal_entry list content option"

text \<open>JSON replaces every invalid byte of a string by U+FFFD; the other fields are kept.\<close>

definition marshal_wal_entry :: "wal_entry \<Rightarrow> wal_entry" where
  "marshal_wal_entry e = e\<lparr>w_key := coerce_utf8 (w_key e)\<rparr>"

definition wal_persist :: "io \<Rightarrow> wal \<Rightarrow> wal" where
  "wal_persist io w =
    w\<lparr>wal_file := snd (write_content io (map marshal_wal_entry (wal_entries w)) (wal_file w))\<rparr>"

definition wal_append :: "io \<Rightarrow> key \<Rightarrow> bytes \<Rightarrow> uint64 \<Rightarrow> bool \<Rightarrow> wal \<Rightarrow> wal" where
  "wal_append io key value seqNum isDelete w =
    wal_persist io (w\<lparr>wal_entries := wal_entries w @
      [\<lparr>w_key = key, w_value = value, w_seq = seqNum, w_delete = isDelete\<rparr>]\<rparr>)"

definition entries_after :: "uint64 \<Rightarrow> wal \<Rightarrow> wal_entry list" where
  "entries_after seqNum w = filter (\<lambda>e. w_seq e > seqNum) (wal_entries w)"

definition max_seq_num :: "wal \<Rightarrow> uint64" where
  "max_seq_num w = fold (\<lambda>e m. if w_seq e > m then w_seq e else m) (wal_entries w) 0"

text \<open>
  \<open>new_wal mkdir_err read_ok file\<close>: the directory may fail to be created, which is an error;
  a file that is missing, cannot be read or does not decode is an empty log.
\<close>

definition new_wal :: "string option \<Rightarrow> bool \<Rightarrow> wal_entry list content option \<Rightarrow> string + wal" where
  "new_wal mkdir_err read_ok file =
    (case mkdir_err of
       Some err \<Rightarrow> Inl err
     | None \<Rightarrow>
       Inr \<lparr>wal_entries = (if read_ok then (case file of Some (Json es) \<Rightarrow> es | _ \<Rightarrow> []) else []),
            wal_file = file\<rparr>)"

text \<open>The operation an entry records.\<close>

definition wal_op :: "wal_entry \<Rightarrow> op" where
  "wal_op e = \<lparr>op_key = w_key e, op_value = w_value e, op_seq = w_seq e, op_delete = w_delete e\<rparr>"

definition wal_ops :: "wal \<Rightarrow> op list" where
  "wal_ops w = map wal_op (wal_entries w)"

section \<open>Lemmas\<close>

lemma wal_op_simps [simp]:
  "op_key (wal_op e) = w_key e" "op_value (wal_op e) = w_value e"
  "op_seq (wal_op e) = w_seq e" "op_delete (wal_op e) = w_delete e"
  by (simp_all add: wal_op_def)

lemma wal_entries_persist [simp]: "wal_entries (wal_persist io w) = wal_entries w"
  by (simp add: wal_persist_def)

lemma wal_entries_append [view_simps]:
  "wal_entries (wal_append io k v n d w) =
    wal_entries w @ [\<lparr>w_key = k, w_value = v, w_seq = n, w_delete = d\<rparr>]"
  by (simp add: wal_append_def)

lemma wal_ops_append [view_simps]:
  "wal_ops (wal_append io k v n d w) =
    wal_ops w @ [\<lparr>op_key = k, op_value = v, op_seq = n, op_delete = d\<rparr>]"
  by (simp add: wal_ops_def wal_entries_append wal_op_def)

lemma wal_ops_after: "map wal_op (entries_after n w) = filter (\<lambda>x. n < op_seq x) (wal_ops w)"
  by (simp add: entries_after_def wal_ops_def filter_map comp_def)

lemma fold_max_ge:
  fixes f :: "'a \<Rightarrow> 'b::linorder"
  shows "fold (\<lambda>e m. if f e > m then f e else m) xs m \<le> n \<longleftrightarrow> m \<le> n \<and> (\<forall>e \<in> set xs. f e \<le> n)"
proof (induction xs arbitrary: m)
  case (Cons x xs)
  have "(if f x > m then f x else m) \<le> n \<longleftrightarrow> m \<le> n \<and> f x \<le> n"
    by auto
  then show ?case by (simp add: Cons.IH conj_assoc del: if_split)
qed simp

lemma max_seq_num_le: "max_seq_num w \<le> n \<longleftrightarrow> (\<forall>e \<in> set (wal_entries w). w_seq e \<le> n)"
  by (simp add: max_seq_num_def fold_max_ge)

lemma wal_ops_max: "x \<in> set (wal_ops w) \<Longrightarrow> op_seq x \<le> max_seq_num w"
  using max_seq_num_le [of w "max_seq_num w"] by (auto simp: wal_ops_def)

lemma max_seq_num_Max: "max_seq_num w = Max (insert 0 (w_seq ` set (wal_entries w)))"
proof -
  have "max_seq_num w \<le> n \<longleftrightarrow> Max (insert 0 (w_seq ` set (wal_entries w))) \<le> n" for n
    by (simp add: max_seq_num_le)
  then show ?thesis by (metis order_antisym order_refl)
qed

definition utf8_entry :: "wal_entry \<Rightarrow> bool" where
  "utf8_entry e \<longleftrightarrow> coerce_utf8 (w_key e) = w_key e"

lemma marshal_utf8: "utf8_entry e \<Longrightarrow> marshal_wal_entry e = e"
  by (simp add: utf8_entry_def marshal_wal_entry_def)

lemma map_marshal_utf8: "\<forall>e \<in> set es. utf8_entry e \<Longrightarrow> map marshal_wal_entry es = es"
  by (induction es) (auto simp: marshal_utf8)

text \<open>What a reader of the log file gets, as an encoder and a decoder of entry lists.\<close>

interpretation wal_codec: codec
  "\<lambda>es. Json (map marshal_wal_entry es)"
  "\<lambda>c. case c of Json es \<Rightarrow> Some es | Torn \<Rightarrow> None"
  "\<lambda>es. \<forall>e \<in> set es. utf8_entry e"
  by unfold_locales (simp add: map_marshal_utf8)

definition append_entry :: "io \<times> wal_entry \<Rightarrow> wal \<Rightarrow> wal" where
  "append_entry = (\<lambda>(io, e). wal_append io (w_key e) (w_value e) (w_seq e) (w_delete e))"

lemma wal_entries_append_entry: "wal_entries (append_entry (io, e) w) = wal_entries w @ [e]"
  by (simp add: append_entry_def wal_entries_append)

lemma wal_entries_run: "wal_entries (fold append_entry es w) = wal_entries w @ map snd es"
  by (induction es arbitrary: w) (auto simp: wal_entries_append_entry)

section \<open>Properties\<close>

text \<open>Claim C39. Once an append has reached the disk, restarting the master reads back the whole log,
  in order, including the entries of earlier appends whose own write failed or was torn.\<close>

theorem wal_survives_restart:
  assumes "w = append_entry (IoOk, e) (fold append_entry es \<lparr>wal_entries = [], wal_file = None\<rparr>)"
    and "\<forall>e' \<in> insert e (snd ` set es). coerce_utf8 (w_key e') = w_key e'"
  shows "new_wal None True (wal_file w) = Inr w \<and> wal_entries w = map snd es @ [e]"
proof -
  have entries: "wal_entries w = map snd es @ [e]"
    by (simp add: assms(1) wal_entries_append_entry wal_entries_run)
  have "wal_file w = Some (Json (map marshal_wal_entry (wal_entries w)))"
    by (simp add: assms(1) append_entry_def wal_append_def wal_persist_def)
  moreover have "map marshal_wal_entry (wal_entries w) = wal_entries w"
    using assms(2) by (intro map_marshal_utf8) (auto simp: entries utf8_entry_def)
  ultimately show ?thesis by (simp add: new_wal_def entries)
qed

theorem wal_survives_restart_witness:
  "wal_entries (append_entry (IoOk, \<lparr>w_key = ''bob/y'', w_value = [2], w_seq = 3, w_delete = False\<rparr>)
      (fold append_entry [(IoTorn ''crash'', \<lparr>w_key = ''bob/x'', w_value = [1], w_seq = 1, w_delete = False\<rparr>)]
        \<lparr>wal_entries = [], wal_file = None\<rparr>))
    = [\<lparr>w_key = ''bob/x'', w_value = [1], w_seq = 1, w_delete = False\<rparr>,
       \<lparr>w_key = ''bob/y'', w_value = [2], w_seq = 3, w_delete = False\<rparr>]"
  using wal_survives_restart [OF refl, of "\<lparr>w_key = ''bob/y'', w_value = [2], w_seq = 3, w_delete = False\<rparr>"
      "[(IoTorn ''crash'', \<lparr>w_key = ''bob/x'', w_value = [1], w_seq = 1, w_delete = False\<rparr>)]"]
  by (simp add: coerce_utf8_ascii)

text \<open>\<open>EntriesAfter\<close> returns exactly the logged entries with a higher number, in log order,
  and \<open>MaxSeqNum\<close> the highest number in the log (0 when it is empty), so asking for what comes
  after the maximum returns nothing.\<close>

theorem wal_queries:
  "set (entries_after n w) = {e \<in> set (wal_entries w). n < w_seq e}
    \<and> subseq (entries_after n w) (wal_entries w)
    \<and> max_seq_num w = Max (insert 0 (w_seq ` set (wal_entries w)))
    \<and> entries_after (max_seq_num w) w = []"
  using max_seq_num_le [of w "max_seq_num w"]
  by (auto simp: entries_after_def max_seq_num_Max [symmetric] filter_empty_conv not_less)

text \<open>A log file damaged by an interrupted write is not reported at start: the master
  comes up with an empty log, so it has nothing to send to a recovering server and restarts its
  sequence numbers at 0.\<close>

theorem torn_wal_is_silently_empty:
  "\<exists>w'. new_wal None True (wal_file (wal_append (IoTorn msg) k v n d w)) = Inr w'
     \<and> wal_entries w' = [] \<and> entries_after m w' = [] \<and> max_seq_num w' = 0"
  by (simp add: new_wal_def wal_append_def wal_persist_def entries_after_def max_seq_num_def)

end
