(* ===== verification/Messages.thy ===== *)
theory Messages
  imports Versions Wal
begin

text \<open>
  The message types of \<open>pkg/protocol\<close> and the way one request travels. \<open>Send\<close> and \<open>Receive\<close>
  encode any of the registered types with \<open>encoding/gob\<close>, which gives the receiver an equal
  value; a connection carries one request and at most one reply. What can go wrong with a
  request is its \<open>fate\<close>, and what its sender sees is an \<open>rpc_result\<close>.
\<close>

section \<open>Message types\<close>

record recovery_entry =
  r_key :: key
  r_value :: bytes
  r_seq :: uint64
  r_delete :: bool

datatype msg =
    HeartbeatMsg string addr
  | RegisterChunkRequest string addr uint64
  | RegisterChunkResponse bool
  | GetPrimaryRequest key
  | GetPrimaryResponse addr "addr list" uint64
  | GetChunkRequest key
  | GetChunkResponse addr bool
  | WriteRequest key bytes uint64
  | WriteResponse bool uint64 string
  | DeleteRequest key uint64
  | DeleteResponse bool string
  | ReplicateRequest key bytes uint64 bool
  | ReplicateResponse bool string
  | ReadRequest key
  | ReadResponse bytes bool uint64
  | RecoveryResponse "recovery_entry list"
  | ListKeysRequest string
  | ListKeysResponse "key list"
  | WALNotify key bytes uint64 bool

definition recovery_op :: "recovery_entry \<Rightarrow> op" where
  "recovery_op e = \<lparr>op_key = r_key e, op_value = r_value e, op_seq = r_seq e, op_delete = r_delete e\<rparr>"

definition replicate_op :: "key \<Rightarrow> bytes \<Rightarrow> uint64 \<Rightarrow> bool \<Rightarrow> op" where
  "replicate_op k v n d = \<lparr>op_key = k, op_value = v, op_seq = n, op_delete = d\<rparr>"

lemma replicate_op_simps [simp]:
  "op_key (replicate_op k v n d) = k" "op_value (replicate_op k v n d) = v"
  "op_seq (replicate_op k v n d) = n" "op_delete (replicate_op k v n d) = d"
  by (simp_all add: replicate_op_def)

lemma recovery_op_simps [simp]:
  "op_key (recovery_op e) = r_key e" "op_value (recovery_op e) = r_value e"
  "op_seq (recovery_op e) = r_seq e" "op_delete (recovery_op e) = r_delete e"
  by (simp_all add: recovery_op_def)

section \<open>Requests over the network\<close>

text \<open>A handler answers, closes the connection without an answer, or panics.\<close>

datatype outcome = Answer msg | Silent | Panic

datatype fate = Fine | NoDial | RequestLost | ReplyLost

datatype rpc_result = DialErr | RecvErr | Got msg

text \<open>
  One request to a handler \<open>h\<close> that works on the state \<open>w\<close>: the dial fails, the request or the
  reply is lost on the way, or everything arrives. The sender ignores errors of \<open>Send\<close>, so a
  lost request shows as an error of \<open>Receive\<close>, and so does a handler that answers nothing.
\<close>

fun rpc :: "fate \<Rightarrow> ('w \<Rightarrow> outcome \<times> 'w) \<Rightarrow> 'w \<Rightarrow> rpc_result \<times> 'w" where
  "rpc NoDial h w = (DialErr, w)"
| "rpc RequestLost h w = (RecvErr, w)"
| "rpc ReplyLost h w = (RecvErr, snd (h w))"
| "rpc Fine h w = (case h w of (Answer m, w) \<Rightarrow> (Got m, w) | (_, w) \<Rightarrow> (RecvErr, w))"

lemma rpc_state: "snd (rpc f h w) = w \<or> snd (rpc f h w) = snd (h w)"
  by (cases f) (auto split: prod.splits outcome.splits)

lemma rpc_preserves:
  assumes "I w" and "I (snd (h w))"
  shows "I (snd (rpc f h w))"
  using rpc_state [of f h w] assms by auto

lemma rpc_Got: "fst (rpc f h w) = Got m \<Longrightarrow> f = Fine \<and> fst (h w) = Answer m \<and> snd (rpc f h w) = snd (h w)"
  by (cases f) (auto split: prod.splits outcome.splits)

lemma rpc_Fine_Answer: "fst (h w) = Answer m \<Longrightarrow> rpc Fine h w = (Got m, snd (h w))"
  by (cases "h w") auto

end
