(* ===== verification/Chunk_Server.thy ===== *)
theory Chunk_Server
  imports Chunk_Store Messages
begin

text \<open>
  The chunk server's handlers (\<open>pkg/chunk/server.go\<close>). The handlers that answer from the store
  alone come first. \<open>handleWrite\<close> and \<open>handleDelete\<close> call the master and the replicas while they
  run; they are written over any state \<open>'w\<close> of the rest of the system, with three arguments for
  what they use of it: access to the server's own store, a request to the master, and a request
  to another chunk server.
\<close>

section \<open>Handlers that only use the store\<close>

definition handle_read :: "key \<Rightarrow> store \<Rightarrow> msg" where
  "handle_read k s =
    (case get s k of
       None \<Rightarrow> ReadResponse [] False 0
     | Some entry \<Rightarrow> ReadResponse (e_value entry) True (e_seq entry))"

definition handle_replicate :: "io \<Rightarrow> key \<Rightarrow> bytes \<Rightarrow> uint64 \<Rightarrow> bool \<Rightarrow> store \<Rightarrow> msg \<times> store" where
  "handle_replicate io k v n d s =
    (case store_apply_result io (replicate_op k v n d) s of
       (Some err, s) \<Rightarrow> (ReplicateResponse False err, s)
     | (None, s) \<Rightarrow> (ReplicateResponse True [], s))"

definition chunk_list_keys :: "key list \<Rightarrow> string \<Rightarrow> store \<Rightarrow> msg" where
  "chunk_list_keys ks pre s = ListKeysResponse (keys_with_prefix ks pre s)"

fun chunk_leaf :: "io \<Rightarrow> key list \<Rightarrow> msg \<Rightarrow> store \<Rightarrow> outcome \<times> store" where
  "chunk_leaf io ks (ReadRequest k) s = (Answer (handle_read k s), s)"
| "chunk_leaf io ks (ReplicateRequest k v n d) s =
    (let (resp, s) = handle_replicate io k v n d s in (Answer resp, s))"
| "chunk_leaf io ks (ListKeysRequest pre) s = (Answer (chunk_list_keys ks pre s), s)"
| "chunk_leaf io ks m s = (Silent, s)"

section \<open>Handlers that use the network\<close>

type_synonym 'w store_access = "(store \<Rightarrow> string option \<times> store) \<Rightarrow> 'w \<Rightarrow> string option \<times> 'w"
type_synonym 'w call = "msg \<Rightarrow> 'w \<Rightarrow> rpc_result \<times> 'w"

definition get_replica_addrs :: "'w call \<Rightarrow> key \<Rightarrow> 'w \<Rightarrow> addr list \<times> 'w" where
  "get_replica_addrs call_master k w =
    (case call_master (GetPrimaryRequest k) w of
       (Got (GetPrimaryResponse _ replicas _), w) \<Rightarrow> (replicas, w)
     | (_, w) \<Rightarrow> ([], w))"

definition replicate_to ::
  "(addr \<Rightarrow> 'w call) \<Rightarrow> addr \<Rightarrow> key \<Rightarrow> bytes \<Rightarrow> uint64 \<Rightarrow> bool \<Rightarrow> 'w \<Rightarrow> string option \<times> 'w" where
  "replicate_to call_chunk a k v n d w =
    (case call_chunk a (ReplicateRequest k v n d) w of
       (DialErr, w) \<Rightarrow> (Some ''dial'', w)
     | (RecvErr, w) \<Rightarrow> (Some ''receive'', w)
     | (Got (ReplicateResponse ok err), w) \<Rightarrow>
         (if \<not> ok then Some (''replica error: '' @ err) else None, w)
     | (Got _, w) \<Rightarrow> (None, w))"

text \<open>The loop over the replicas only logs the errors.\<close>

definition replicate_all ::
  "(addr \<Rightarrow> 'w call) \<Rightarrow> addr list \<Rightarrow> key \<Rightarrow> bytes \<Rightarrow> uint64 \<Rightarrow> bool \<Rightarrow> 'w \<Rightarrow> 'w" where
  "replicate_all call_chunk replicas k v n d w =
    fold (\<lambda>a w. snd (replicate_to call_chunk a k v n d w)) replicas w"

definition handle_write ::
  "'w store_access \<Rightarrow> 'w call \<Rightarrow> (addr \<Rightarrow> 'w call) \<Rightarrow> io \<Rightarrow> key \<Rightarrow> bytes \<Rightarrow> uint64 \<Rightarrow> 'w \<Rightarrow> outcome \<times> 'w" where
  "handle_write own call_master call_chunk io k v n w =
    (case own (put io k v n) w of
       (Some err, w) \<Rightarrow> (Answer (WriteResponse False 0 err), w)
     | (None, w) \<Rightarrow>
         let (replicas, w) = get_replica_addrs call_master k w;
             w = replicate_all call_chunk replicas k v n False w
         in (Answer (WriteResponse True n []), w))"

definition handle_delete ::
  "'w store_access \<Rightarrow> 'w call \<Rightarrow> (addr \<Rightarrow> 'w call) \<Rightarrow> io \<Rightarrow> key \<Rightarrow> uint64 \<Rightarrow> 'w \<Rightarrow> outcome \<times> 'w" where
  "handle_delete own call_master call_chunk io k n w =
    (case own (delete io k n) w of
       (Some err, w) \<Rightarrow> (Answer (DeleteResponse False err), w)
     | (None, w) \<Rightarrow>
         let (replicas, w) = get_replica_addrs call_master k w;
             w = replicate_all call_chunk replicas k [] n True w
         in (Answer (DeleteResponse True []), w))"

text \<open>The dispatch of \<open>handleConn\<close>.\<close>

fun chunk_conn ::
  "'w store_access \<Rightarrow> 'w call \<Rightarrow> (addr \<Rightarrow> 'w call) \<Rightarrow> ('w \<Rightarrow> outcome \<times> 'w) \<Rightarrow> io \<Rightarrow> msg \<Rightarrow> 'w \<Rightarrow> outcome \<times> 'w" where
  "chunk_conn own call_master call_chunk leaf io (WriteRequest k v n) w =
    handle_write own call_master call_chunk io k v n w"
| "chunk_conn own call_master call_chunk leaf io (DeleteRequest k n) w =
    handle_delete own call_master call_chunk io k n w"
| "chunk_conn own call_master call_chunk leaf io m w = leaf w"

text \<open>
  The recovery loop of \<open>registerWithMaster\<close> applies the entries in order and ignores errors;
  \<open>ios i\<close> is the outcome of writing the \<open>i\<close>-th.
\<close>

definition apply_recovery :: "(nat \<Rightarrow> io) \<Rightarrow> recovery_entry list \<Rightarrow> store \<Rightarrow> store" where
  "apply_recovery ios es s =
    deliver store_apply (zip (map ios [0..<length es]) (map recovery_op es)) s"

definition recover_from :: "(nat \<Rightarrow> io) \<Rightarrow> msg \<Rightarrow> store \<Rightarrow> store" where
  "recover_from ios resp s =
    (case resp of RecoveryResponse es \<Rightarrow> if es \<noteq> [] then apply_recovery ios es s else s | _ \<Rightarrow> s)"

section \<open>Lemmas\<close>

lemma handle_replicate_state [view_simps]:
  "snd (handle_replicate io k v n d s) = store_apply io (replicate_op k v n d) s"
  by (simp add: handle_replicate_def store_apply_def split: prod.splits option.splits)

lemma handle_replicate_ok:
  "fst (handle_replicate IoOk k v n d s) = ReplicateResponse True []"
  using error_apply [of IoOk "replicate_op k v n d" s]
  by (auto simp: handle_replicate_def split: prod.splits option.splits if_splits)

lemma chunk_leaf_state:
  "snd (chunk_leaf io ks m s) = s \<or>
    (\<exists>k v n d. m = ReplicateRequest k v n d \<and> snd (chunk_leaf io ks m s) = store_apply io (replicate_op k v n d) s)"
proof (cases m)
  case (ReplicateRequest k v n d)
  then show ?thesis
    using handle_replicate_state [of io k v n d s] by (auto split: prod.splits)
qed simp_all

lemma map_snd_recovery:
  "map snd (zip (map ios [0..<length es]) (map recovery_op es)) = map recovery_op es"
  by simp

lemma replicate_to_state: "snd (replicate_to call_chunk a k v n d w) = snd (call_chunk a (ReplicateRequest k v n d) w)"
  by (simp add: replicate_to_def split: prod.split rpc_result.split msg.split)

lemma get_replica_addrs_state: "snd (get_replica_addrs call_master k w) = snd (call_master (GetPrimaryRequest k) w)"
  by (simp add: get_replica_addrs_def split: prod.split rpc_result.split msg.split)

text \<open>
  The interface of the network to a chunk server: whatever a client of it may rely on as an
  invariant \<open>I\<close> of the whole system is kept by access to the own store and by both kinds of
  request, as far as the handlers use them.
\<close>

locale chunk_network =
  fixes own :: "'w store_access"
    and call_master :: "'w call"
    and call_chunk :: "addr \<Rightarrow> 'w call"
    and allowed :: "op \<Rightarrow> bool"
    and I :: "'w \<Rightarrow> bool"
  assumes own_inv: "allowed x \<Longrightarrow> I w \<Longrightarrow> I (snd (own (store_apply_result io x) w))"
    and master_inv: "I w \<Longrightarrow> I (snd (call_master (GetPrimaryRequest k) w))"
    and chunk_inv: "allowed (replicate_op k v n d) \<Longrightarrow> I w \<Longrightarrow> I (snd (call_chunk a (ReplicateRequest k v n d) w))"
begin

lemma replicate_all_inv:
  "allowed (replicate_op k v n d) \<Longrightarrow> I w \<Longrightarrow> I (replicate_all call_chunk replicas k v n d w)"
  unfolding replicate_all_def
  by (rule fold_invariant_set [where P = I]) (simp_all add: replicate_to_state chunk_inv)

lemma handle_write_inv:
  assumes "allowed (put_op k v n)" "I w"
  shows "I (snd (handle_write own call_master call_chunk io k v n w))"
proof -
  have al: "allowed (replicate_op k v n False)"
    using assms(1) by (simp add: replicate_op_def put_op_def)
  have 1: "I (snd (own (put io k v n) w))"
    using own_inv [OF assms, of io] by (simp add: put_is_apply [abs_def])
  obtain r w1 where w1: "own (put io k v n) w = (r, w1)" by (cases "own (put io k v n) w")
  obtain reps w2 where w2: "get_replica_addrs call_master k w1 = (reps, w2)"
    by (cases "get_replica_addrs call_master k w1")
  have "I w2"
    using 1 w1 master_inv [of w1 k] get_replica_addrs_state [of call_master k w1] w2 by simp
  then show ?thesis
    using 1 w1 w2 replicate_all_inv [OF al] by (simp add: handle_write_def split: option.split)
qed

lemma handle_delete_inv:
  assumes "allowed (delete_op k n)" "I w"
  shows "I (snd (handle_delete own call_master call_chunk io k n w))"
proof -
  have al: "allowed (replicate_op k [] n True)"
    using assms(1) by (simp add: replicate_op_def delete_op_def)
  have 1: "I (snd (own (delete io k n) w))"
    using own_inv [OF assms, of io] by (simp add: delete_is_apply [abs_def])
  obtain r w1 where w1: "own (delete io k n) w = (r, w1)" by (cases "own (delete io k n) w")
  obtain reps w2 where w2: "get_replica_addrs call_master k w1 = (reps, w2)"
    by (cases "get_replica_addrs call_master k w1")
  have "I w2"
    using 1 w1 master_inv [of w1 k] get_replica_addrs_state [of call_master k w1] w2 by simp
  then show ?thesis
    using 1 w1 w2 replicate_all_inv [OF al] by (simp add: handle_delete_def split: option.split)
qed

end

end
