(* ===== verification/Registry.thy ===== *)
theory Registry
  imports Prelude
begin

text \<open>
  The master's registry of chunk servers (\<open>pkg/master/registry.go\<close>): registrations, heartbeats
  and the monitor that marks silent servers dead. The current time is an argument of every
  operation that reads the clock. \<open>AliveChunks\<close> returns a snapshot of the infos in the order in
  which the map is visited.
\<close>

record chunk_info =
  ci_id :: string
  ci_addr :: addr
  ci_last_beat :: time
  ci_alive :: bool
  ci_last_seq :: uint64

type_synonym registry = "string \<rightharpoonup> chunk_info"

definition new_registry :: registry where
  "new_registry = Map.empty"

definition register :: "time \<Rightarrow> string \<Rightarrow> addr \<Rightarrow> uint64 \<Rightarrow> registry \<Rightarrow> registry" where
  "register now cid addr lastSeq r =
    r(cid \<mapsto> \<lparr>ci_id = cid, ci_addr = addr, ci_last_beat = now, ci_alive = True, ci_last_seq = lastSeq\<rparr>)"

definition heartbeat :: "time \<Rightarrow> string \<Rightarrow> addr \<Rightarrow> registry \<Rightarrow> registry" where
  "heartbeat now cid addr r =
    (case r cid of
       Some c \<Rightarrow> r(cid \<mapsto> c\<lparr>ci_last_beat := now, ci_alive := True, ci_addr := addr\<rparr>)
     | None \<Rightarrow> r)"

definition alive_chunks :: "string list \<Rightarrow> registry \<Rightarrow> chunk_info list" where
  "alive_chunks ids r =
    concat (map (\<lambda>cid. case r cid of Some c \<Rightarrow> if ci_alive c then [c] else [] | None \<Rightarrow> []) ids)"

definition get_chunk :: "string \<Rightarrow> registry \<Rightarrow> chunk_info option" where
  "get_chunk cid r = r cid"

text \<open>One round of \<open>monitorHealth\<close>, which visits the servers in the order \<open>ids\<close>.\<close>

definition monitor_one :: "time \<Rightarrow> string \<Rightarrow> registry \<Rightarrow> registry" where
  "monitor_one now cid r =
    (case r cid of
       Some c \<Rightarrow>
         if ci_alive c \<and> now - ci_last_beat c > 6 * second then r(cid \<mapsto> c\<lparr>ci_alive := False\<rparr>) else r
     | None \<Rightarrow> r)"

definition monitor_tick :: "time \<Rightarrow> string list \<Rightarrow> registry \<Rightarrow> registry" where
  "monitor_tick now ids r = fold (monitor_one now) ids r"

text \<open>The events of a registry, and a run of them.\<close>

datatype reg_event =
    Registered time string addr uint64
  | Beat time string addr
  | Tick time "string list"

fun reg_step :: "reg_event \<Rightarrow> registry \<Rightarrow> registry" where
  "reg_step (Registered now cid addr n) r = register now cid addr n r"
| "reg_step (Beat now cid addr) r = heartbeat now cid addr r"
| "reg_step (Tick now ids) r = monitor_tick now ids r"

section \<open>Lemmas\<close>

lemma monitor_one_other [simp]: "i \<noteq> cid \<Longrightarrow> monitor_one now cid r i = r i"
  by (simp add: monitor_one_def split: option.split)

definition check :: "time \<Rightarrow> chunk_info \<Rightarrow> chunk_info" where
  "check now c = (if ci_alive c \<and> now - ci_last_beat c > 6 * second then c\<lparr>ci_alive := False\<rparr> else c)"

lemma monitor_one_same [simp]: "monitor_one now cid r cid = map_option (check now) (r cid)"
  by (simp add: monitor_one_def check_def split: option.split)

lemma check_simps [simp]:
  "ci_id (check now c) = ci_id c" "ci_addr (check now c) = ci_addr c"
  "ci_last_beat (check now c) = ci_last_beat c" "ci_last_seq (check now c) = ci_last_seq c"
  "ci_alive (check now c) \<longleftrightarrow> ci_alive c \<and> now - ci_last_beat c \<le> 6 * second"
  by (auto simp: check_def)

lemma check_idem: "check now (check now c) = check now c"
  by (simp add: check_def)

lemma monitor_tick_lookup:
  "monitor_tick now ids r i = (if i \<in> set ids then map_option (check now) (r i) else r i)"
  unfolding monitor_tick_def
proof (induction ids arbitrary: r)
  case (Cons cid ids)
  then show ?case
    by (cases "i = cid") (auto simp: option.map_comp comp_def check_idem)
qed simp

lemma monitor_tick_order:
  assumes "range_order r ids"
  shows "monitor_tick now ids r i = map_option (check now) (r i)"
  using assms by (auto simp: monitor_tick_lookup range_order_def domIff split: option.splits)

lemma alive_chunks_mem:
  "c \<in> set (alive_chunks ids r) \<longleftrightarrow> (\<exists>cid \<in> set ids. r cid = Some c \<and> ci_alive c)"
  by (force simp: alive_chunks_def split: option.splits if_splits)

lemma alive_chunks_order:
  "range_order r ids \<Longrightarrow> c \<in> set (alive_chunks ids r) \<longleftrightarrow> (\<exists>cid. r cid = Some c \<and> ci_alive c)"
  by (auto simp: alive_chunks_mem range_order_def)

lemma alive_chunks_empty [simp]: "alive_chunks ids Map.empty = []"
  by (simp add: alive_chunks_def)

text \<open>Every info is filed under its own identifier.\<close>

definition reg_inv :: "registry \<Rightarrow> bool" where
  "reg_inv r \<longleftrightarrow> finite (dom r) \<and> (\<forall>cid c. r cid = Some c \<longrightarrow> ci_id c = cid)"

lemma dom_monitor_tick [simp]: "dom (monitor_tick now ids r) = dom r"
  by (auto simp: monitor_tick_lookup split: if_splits)

lemma reg_inv_step: "reg_inv r \<Longrightarrow> reg_inv (reg_step e r)"
  by (cases e)
     (auto simp: reg_inv_def register_def heartbeat_def monitor_tick_lookup
       split: option.splits if_splits)

lemma reg_inv_new [simp]: "reg_inv new_registry"
  by (simp add: reg_inv_def new_registry_def)

text \<open>No event of the list is a registration or a heartbeat of \<open>cid\<close>.\<close>

definition about :: "string \<Rightarrow> reg_event \<Rightarrow> bool" where
  "about cid e = (case e of Registered _ i _ _ \<Rightarrow> i = cid | Beat _ i _ \<Rightarrow> i = cid | Tick _ _ \<Rightarrow> False)"

lemma about_simps [simp]:
  "about cid (Registered t i a n) \<longleftrightarrow> i = cid" "about cid (Beat t i a) \<longleftrightarrow> i = cid"
  "\<not> about cid (Tick t ids)"
  by (auto simp: about_def)

text \<open>Times at which the monitor looks at \<open>cid\<close>.\<close>

definition looks :: "string \<Rightarrow> reg_event list \<Rightarrow> time set" where
  "looks cid es = {t. \<exists>ids. Tick t ids \<in> set es \<and> cid \<in> set ids}"

lemma silent_step:
  assumes "r cid = Some c" "\<not> about cid e"
  shows "\<exists>c'. reg_step e r cid = Some c' \<and> ci_last_beat c' = ci_last_beat c
    \<and> (ci_alive c' \<longleftrightarrow> ci_alive c \<and> (\<forall>t \<in> looks cid [e]. t - ci_last_beat c \<le> 6 * second))"
  using assms
  by (cases e)
     (auto simp: register_def heartbeat_def monitor_tick_lookup looks_def split: option.splits)

lemma silent_run:
  assumes "r cid = Some c" "\<forall>e \<in> set es. \<not> about cid e"
  shows "\<exists>c'. fold reg_step es r cid = Some c' \<and> ci_last_beat c' = ci_last_beat c
    \<and> (ci_alive c' \<longleftrightarrow> ci_alive c \<and> (\<forall>t \<in> looks cid es. t - ci_last_beat c \<le> 6 * second))"
  using assms
proof (induction es arbitrary: r c)
  case (Cons e es)
  obtain d where d: "reg_step e r cid = Some d" "ci_last_beat d = ci_last_beat c"
    "ci_alive d \<longleftrightarrow> ci_alive c \<and> (\<forall>t \<in> looks cid [e]. t - ci_last_beat c \<le> 6 * second)"
    using silent_step [of r cid c e] Cons.prems by auto
  have "looks cid (e # es) = looks cid [e] \<union> looks cid es" by (auto simp: looks_def)
  then show ?case
    using Cons.IH [of "reg_step e r" d] Cons.prems d by auto
qed (simp add: looks_def)

section \<open>Properties\<close>

text \<open>After a server's last registration or heartbeat, whatever else happens, it counts as alive
  exactly until the first round of the monitor that comes more than six seconds later.\<close>

theorem alive_until_six_seconds_of_silence:
  assumes "r cid = Some c" "ci_alive c" "\<forall>e \<in> set es. \<not> about cid e"
  shows "\<exists>c'. get_chunk cid (fold reg_step es r) = Some c'
    \<and> (ci_alive c' \<longleftrightarrow> (\<forall>t \<in> looks cid es. t - ci_last_beat c \<le> 6 * second))"
  using silent_run [of r cid c es] assms by (auto simp: get_chunk_def)

theorem alive_until_six_seconds_of_silence_witness:
  "\<exists>c'. get_chunk ''c1'' (fold reg_step [Tick (5 * second) [''c1''], Beat (6 * second) ''c2'' ''b'', Tick (8 * second) [''c1'']]
      (register (1 * second) ''c1'' ''a'' 0 new_registry)) = Some c'
    \<and> (ci_alive c' \<longleftrightarrow> (\<forall>t \<in> looks ''c1'' [Tick (5 * second) [''c1''], Beat (6 * second) ''c2'' ''b'', Tick (8 * second) [''c1'']].
          t - 1 * second \<le> 6 * second))"
  using alive_until_six_seconds_of_silence
    [of "register (1 * second) ''c1'' ''a'' 0 new_registry" "''c1''"
      "\<lparr>ci_id = ''c1'', ci_addr = ''a'', ci_last_beat = 1 * second, ci_alive = True, ci_last_seq = 0\<rparr>"
      "[Tick (5 * second) [''c1''], Beat (6 * second) ''c2'' ''b'', Tick (8 * second) [''c1'']]"]
  by (simp add: register_def)

text \<open>Claim C38. The monitor runs every three seconds. A server that falls silent after its last registration or heartbeat is
  dead once the rounds of the following nine seconds have been made, whatever the other servers do, and it is still
  alive as long as no round later than six seconds has been made.\<close>

theorem silent_server_dead_within_nine_seconds:
  assumes "r cid = Some c" "\<forall>e \<in> set es. \<not> about cid e"
    and "start \<le> ci_last_beat c"
    and ticks: "\<And>i. ci_last_beat c < start + 3 * second * int i \<Longrightarrow> start + 3 * second * int i \<le> ci_last_beat c + 9 * second
       \<Longrightarrow> start + 3 * second * int i \<in> looks cid es"
  shows "(\<exists>c'. get_chunk cid (fold reg_step es r) = Some c' \<and> \<not> ci_alive c')
    \<and> (ci_alive c \<and> es = es1 @ es2 \<and> (\<forall>t \<in> looks cid es1. t \<le> ci_last_beat c + 6 * second)
       \<longrightarrow> (\<exists>c'. get_chunk cid (fold reg_step es1 r) = Some c' \<and> ci_alive c'))"
proof -
  let ?gap = "ci_last_beat c + 6 * second - start"
  let ?i = "nat (?gap div (3 * second)) + 1"
  have "0 \<le> ?gap" using assms(3) by simp
  then have i: "int ?i = ?gap div (3 * second) + 1" by (simp add: pos_imp_zdiv_nonneg_iff)
  have "start + 3 * second * int ?i \<le> ci_last_beat c + 9 * second
      \<and> start + 3 * second * int ?i > ci_last_beat c + 6 * second"
    unfolding i by (simp add: algebra_simps) linarith
  with ticks [of ?i] have "\<exists>t \<in> looks cid es. \<not> t - ci_last_beat c \<le> 6 * second"
    by (intro bexI [of _ "start + 3 * second * int ?i"]) linarith+
  then have "\<exists>c'. get_chunk cid (fold reg_step es r) = Some c' \<and> \<not> ci_alive c'"
    using silent_run [of r cid c es] assms(1,2) by (auto simp: get_chunk_def)
  moreover have "\<exists>c'. get_chunk cid (fold reg_step es1 r) = Some c' \<and> ci_alive c'"
    if "ci_alive c" "es = es1 @ es2" "\<forall>t \<in> looks cid es1. t \<le> ci_last_beat c + 6 * second"
    using silent_run [of r cid c es1] assms(1,2) that by (auto simp: get_chunk_def algebra_simps)
  ultimately show ?thesis by blast
qed

text \<open>A heartbeat between two rounds of the monitor, and another server that goes on beating.\<close>

theorem silent_server_dead_within_nine_seconds_witness:
  "\<exists>c'. get_chunk ''c1'' (fold reg_step [Tick (3 * second) [''c2'', ''c1''], Beat (4 * second) ''c2'' ''b'', Tick (6 * second) [''c1'', ''c2''],
        Tick (9 * second) [''c1'', ''c2'']]
      (heartbeat second ''c1'' ''a'' (register 0 ''c2'' ''b'' 0 (register 0 ''c1'' ''a'' 0 new_registry)))) = Some c' \<and> \<not> ci_alive c'"
proof (rule conjunct1 [OF silent_server_dead_within_nine_seconds [where start = 0]])
  let ?c = "\<lparr>ci_id = ''c1'', ci_addr = ''a'', ci_last_beat = second, ci_alive = True, ci_last_seq = 0\<rparr>"
  show "heartbeat second ''c1'' ''a'' (register 0 ''c2'' ''b'' 0 (register 0 ''c1'' ''a'' 0 new_registry)) ''c1'' = Some ?c"
    by (simp add: heartbeat_def register_def)
  fix i assume "ci_last_beat ?c < 0 + 3 * second * int i" "0 + 3 * second * int i \<le> ci_last_beat ?c + 9 * second"
  then have "i \<noteq> 0" "i \<le> 3" by (auto intro: ccontr)
  then have "i = 1 \<or> i = 2 \<or> i = 3" by arith
  then show "0 + 3 * second * int i \<in> looks ''c1'' [Tick (3 * second) [''c2'', ''c1''], Beat (4 * second) ''c2'' ''b'',
      Tick (6 * second) [''c1'', ''c2''], Tick (9 * second) [''c1'', ''c2'']]"
    by (auto simp: looks_def)
qed simp_all

text \<open>A heartbeat never enters a server into the registry, so a master that has restarted,
  and with it lost its registry, keeps an empty one however many heartbeats the running servers send.\<close>

theorem heartbeats_never_register:
  assumes "\<forall>e \<in> set es. \<forall>t cid a n. e \<noteq> Registered t cid a n"
  shows "fold reg_step es new_registry = new_registry
    \<and> alive_chunks ids (fold reg_step es new_registry) = []"
proof -
  have "fold reg_step es Map.empty = Map.empty"
    using assms
  proof (induction es)
    case (Cons e es)
    have "reg_step e Map.empty = Map.empty"
    proof (cases e)
      case (Tick t ids)
      have "monitor_tick t ids Map.empty i = None" for i
        by (simp add: monitor_tick_lookup)
      with Tick show ?thesis by (simp add: fun_eq_iff)
    qed (use Cons.prems in \<open>auto simp: heartbeat_def\<close>)
    with Cons show ?case by simp
  qed simp
  then show ?thesis by (simp add: new_registry_def)
qed

theorem heartbeats_never_register_witness:
  "alive_chunks [''c1''] (fold reg_step [Beat 0 ''c1'' ''a'', Tick second [], Beat (2 * second) ''c1'' ''a''] new_registry) = []"
  by (rule conjunct2 [OF heartbeats_never_register]) auto

end
