(* ===== verification/Metadata.thy ===== *)
theory Metadata
  imports Prelude
begin

text \<open>
  The master's metadata (\<open>pkg/master/metadata.go\<close>): the identifier of the primary and the
  global sequence counter, a \<open>uint64\<close> that wraps around.
\<close>

record metadata =
  md_primary :: string
  md_seq :: uint64

definition new_metadata :: "string \<Rightarrow> metadata" where
  "new_metadata primaryID = \<lparr>md_primary = primaryID, md_seq = 0\<rparr>"

definition primary_id :: "metadata \<Rightarrow> string" where
  "primary_id m = md_primary m"

definition next_seq_num :: "metadata \<Rightarrow> uint64 \<times> metadata" where
  "next_seq_num m = (let m = m\<lparr>md_seq := md_seq m + 1\<rparr> in (md_seq m, m))"

definition current_seq_num :: "metadata \<Rightarrow> uint64" where
  "current_seq_num m = md_seq m"

definition set_seq_num :: "uint64 \<Rightarrow> metadata \<Rightarrow> metadata" where
  "set_seq_num n m = (if n > md_seq m then m\<lparr>md_seq := n\<rparr> else m)"

text \<open>The numbers handed out by \<open>n\<close> calls in a row.\<close>

fun issue :: "nat \<Rightarrow> metadata \<Rightarrow> uint64 list \<times> metadata" where
  "issue 0 m = ([], m)"
| "issue (Suc n) m =
    (let (x, m) = next_seq_num m; (xs, m) = issue n m in (x # xs, m))"

lemma next_seq_num_simps [simp]:
  "fst (next_seq_num m) = md_seq m + 1"
  "md_seq (snd (next_seq_num m)) = md_seq m + 1"
  "md_primary (snd (next_seq_num m)) = md_primary m"
  by (simp_all add: next_seq_num_def)

lemma set_seq_num_max [simp]: "md_seq (set_seq_num n m) = max (md_seq m) n"
  by (auto simp: set_seq_num_def max_def dest: less_imp_le)

lemma set_seq_num_primary [simp]: "md_primary (set_seq_num n m) = md_primary m"
  by (simp add: set_seq_num_def)

lemma unat_Suc_word:
  fixes x :: uint64
  assumes "unat x + 1 < 2 ^ 64"
  shows "unat (x + 1) = unat x + 1"
  using assms by (simp add: unat_word_ariths)

lemma issue_upt:
  "unat (md_seq m) + n < 2 ^ 64
    \<Longrightarrow> map unat (fst (issue n m)) = [unat (md_seq m) + 1 ..< unat (md_seq m) + n + 1]
      \<and> unat (md_seq (snd (issue n m))) = unat (md_seq m) + n"
proof (induction n arbitrary: m)
  case (Suc n)
  have u: "unat (md_seq m + 1) = unat (md_seq m) + 1"
    using Suc.prems by (intro unat_Suc_word) simp
  have step: "issue (Suc n) m =
      ((md_seq m + 1) # fst (issue n (snd (next_seq_num m))), snd (issue n (snd (next_seq_num m))))"
    by (simp add: next_seq_num_def split: prod.split)
  have "map unat (fst (issue n (snd (next_seq_num m)))) =
      [unat (md_seq m) + 1 + 1 ..< unat (md_seq m) + 1 + n + 1]
    \<and> unat (md_seq (snd (issue n (snd (next_seq_num m))))) = unat (md_seq m) + 1 + n"
    using Suc.IH [of "snd (next_seq_num m)"] Suc.prems by (simp add: u)
  then show ?case
    unfolding step using u upt_conv_Cons [of "unat (md_seq m) + 1" "unat (md_seq m) + Suc n + 1"]
    by (simp del: upt_Suc)
qed simp

section \<open>Properties\<close>

text \<open>Claim C40. As long as the counter does not wrap around, the numbers handed out in a row are the
  next consecutive ones: pairwise distinct, increasing, and all above every number the counter was
  set to from the log.\<close>

theorem issued_numbers_are_fresh:
  assumes "unat (max (md_seq m) k) + n < 2 ^ 64"
  shows "map unat (fst (issue n (set_seq_num k m)))
      = [unat (max (md_seq m) k) + 1 ..< unat (max (md_seq m) k) + n + 1]
    \<and> distinct (fst (issue n (set_seq_num k m)))
    \<and> (\<forall>x \<in> set (fst (issue n (set_seq_num k m))). k < x)"
proof -
  let ?xs = "fst (issue n (set_seq_num k m))"
  have eq: "map unat ?xs = [unat (max (md_seq m) k) + 1 ..< unat (max (md_seq m) k) + n + 1]"
    using issue_upt [of "set_seq_num k m" n] assms by simp
  then have "distinct (map unat ?xs)" by simp
  then have "distinct ?xs" by (simp only: distinct_map)
  moreover have "k < x" if "x \<in> set ?xs" for x
  proof -
    have "unat x \<in> set (map unat ?xs)" using that by simp
    then have "unat (max (md_seq m) k) < unat x" unfolding eq by (auto simp del: upt_Suc)
    then have "max (md_seq m) k < x" by (simp add: word_less_nat_alt)
    then show ?thesis by simp
  qed
  ultimately show ?thesis using eq by blast
qed

theorem issued_numbers_are_fresh_witness:
  "map unat (fst (issue 3 (set_seq_num 41 (new_metadata ''chunk1'')))) = [42, 43, 44]"
  using issued_numbers_are_fresh [of "new_metadata ''chunk1''" 41 3]
  by (simp add: new_metadata_def upt_rec)

text \<open>After the last number the counter wraps to 0, and so hands out a number that is not above
  the ones it gave before.\<close>

theorem sequence_counter_wraps:
  "fst (next_seq_num (m\<lparr>md_seq := 2 ^ 64 - 1\<rparr>)) = 0
    \<and> current_seq_num (snd (next_seq_num (m\<lparr>md_seq := 2 ^ 64 - 1\<rparr>))) = 0"
  by (simp add: current_seq_num_def)

end
