(* ===== verification/Master_Server.thy ===== *)
theory Master_Server
  imports Messages Registry Metadata "HOL-Library.Signed_Division"
begin

text \<open>
  The master node (\<open>pkg/master/server.go\<close>): its state, one definition per handler, the dispatch
  of \<open>handleConn\<close> and the start of the process. Every handler returns its outcome and the new
  state. The clock, the order in which the registry is visited, the outcome of writing the log
  and the reply of the chunk server that a listing is forwarded to are arguments.
\<close>

record mserver =
  ms_registry :: registry
  ms_meta :: metadata
  ms_wal :: wal
  ms_read_idx :: uint64

definition handle_register :: "time \<Rightarrow> string \<Rightarrow> addr \<Rightarrow> uint64 \<Rightarrow> mserver \<Rightarrow> outcome \<times> mserver" where
  "handle_register now chunkID caddr lastSeq s =
    (let s = s\<lparr>ms_registry := register now chunkID caddr lastSeq (ms_registry s)\<rparr>;
         missed = entries_after lastSeq (ms_wal s);
         entries = map (\<lambda>e. \<lparr>r_key = w_key e, r_value = w_value e, r_seq = w_seq e, r_delete = w_delete e\<rparr>) missed
     in (Answer (RecoveryResponse entries), s))"

text \<open>The loop that splits the alive servers into the primary's address and the replicas'.\<close>

fun split_primary :: "string \<Rightarrow> chunk_info list \<Rightarrow> addr \<times> addr list \<Rightarrow> addr \<times> addr list" where
  "split_primary primaryID [] acc = acc"
| "split_primary primaryID (c # cs) (primaryAddr, replicas) =
    (if ci_id c = primaryID then split_primary primaryID cs (ci_addr c, replicas)
     else split_primary primaryID cs (primaryAddr, replicas @ [ci_addr c]))"

definition handle_get_primary :: "string list \<Rightarrow> mserver \<Rightarrow> outcome \<times> mserver" where
  "handle_get_primary ids s =
    (let primaryID = primary_id (ms_meta s);
         alive = alive_chunks ids (ms_registry s);
         (primaryAddr, replicas) = split_primary primaryID alive ([], [])
     in if primaryAddr = [] then (Answer (GetPrimaryResponse [] [] 0), s)
        else
          let (seqNum, m) = next_seq_num (ms_meta s)
          in (Answer (GetPrimaryResponse primaryAddr replicas seqNum), s\<lparr>ms_meta := m\<rparr>))"

text \<open>
  The round-robin choice: \<open>int(idx)\<close> reads the counter as a signed 64-bit number, \<open>%\<close> truncates
  towards zero, and indexing outside the slice panics.
\<close>

definition handle_get_chunk :: "string list \<Rightarrow> mserver \<Rightarrow> outcome \<times> mserver" where
  "handle_get_chunk ids s =
    (let alive = alive_chunks ids (ms_registry s) in
     if alive = [] then (Answer (GetChunkResponse [] False), s)
     else
       let idx = ms_read_idx s + 1;
           s = s\<lparr>ms_read_idx := idx\<rparr>;
           i = sint idx smod int (length alive)
       in if 0 \<le> i \<and> i < int (length alive)
          then (Answer (GetChunkResponse (ci_addr (alive ! nat i)) True), s)
          else (Panic, s))"

definition handle_list_keys ::
  "string list \<Rightarrow> (addr \<Rightarrow> msg \<Rightarrow> rpc_result) \<Rightarrow> string \<Rightarrow> mserver \<Rightarrow> outcome \<times> mserver" where
  "handle_list_keys ids ask pre s =
    (let alive = alive_chunks ids (ms_registry s) in
     if alive = [] then (Answer (ListKeysResponse []), s)
     else
       (case ask (ci_addr (hd alive)) (ListKeysRequest pre) of
          DialErr \<Rightarrow> (Answer (ListKeysResponse []), s)
        | RecvErr \<Rightarrow> (Answer (ListKeysResponse []), s)
        | Got resp \<Rightarrow> (Answer resp, s)))"

definition handle_wal_notify :: "io \<Rightarrow> key \<Rightarrow> bytes \<Rightarrow> uint64 \<Rightarrow> bool \<Rightarrow> mserver \<Rightarrow> outcome \<times> mserver" where
  "handle_wal_notify io k v n d s = (Silent, s\<lparr>ms_wal := wal_append io k v n d (ms_wal s)\<rparr>)"

fun master_conn ::
  "time \<Rightarrow> string list \<Rightarrow> io \<Rightarrow> (addr \<Rightarrow> msg \<Rightarrow> rpc_result) \<Rightarrow> msg \<Rightarrow> mserver \<Rightarrow> outcome \<times> mserver" where
  "master_conn now ids io ask (HeartbeatMsg chunkID caddr) s =
    (Silent, s\<lparr>ms_registry := heartbeat now chunkID caddr (ms_registry s)\<rparr>)"
| "master_conn now ids io ask (RegisterChunkRequest chunkID caddr lastSeq) s =
    handle_register now chunkID caddr lastSeq s"
| "master_conn now ids io ask (GetPrimaryRequest k) s = handle_get_primary ids s"
| "master_conn now ids io ask (GetChunkRequest k) s = handle_get_chunk ids s"
| "master_conn now ids io ask (ListKeysRequest pre) s = handle_list_keys ids ask pre s"
| "master_conn now ids io ask (WALNotify k v n d) s = handle_wal_notify io k v n d s"
| "master_conn now ids io ask m s = (Silent, s)"

text \<open>
  The start of the process: the log is read, the registry is empty, and \<open>Start\<close> restores the
  counter from the log.
\<close>

definition master_start :: "mserver \<Rightarrow> mserver" where
  "master_start s = s\<lparr>ms_meta := set_seq_num (max_seq_num (ms_wal s)) (ms_meta s)\<rparr>"

definition master_boot ::
  "string \<Rightarrow> string option \<Rightarrow> bool \<Rightarrow> wal_entry list content option \<Rightarrow> string + mserver" where
  "master_boot primaryID mkdir_err read_ok file =
    (case new_wal mkdir_err read_ok file of
       Inl err \<Rightarrow> Inl err
     | Inr w \<Rightarrow> Inr (master_start
         \<lparr>ms_registry = new_registry, ms_meta = new_metadata primaryID, ms_wal = w, ms_read_idx = 0\<rparr>))"

section \<open>Lemmas\<close>

lemma master_boot_state:
  "master_boot p mkdir_err ok f = Inr s \<Longrightarrow> ms_registry s = new_registry \<and> current_seq_num (ms_meta s) = max_seq_num (ms_wal s)"
  by (auto simp: master_boot_def master_start_def new_metadata_def current_seq_num_def split: sum.splits)

lemma handle_register_simps [simp]:
  "snd (handle_register now i a n s) = s\<lparr>ms_registry := register now i a n (ms_registry s)\<rparr>"
  "fst (handle_register now i a n s) = Answer (RecoveryResponse
     (map (\<lambda>e. \<lparr>r_key = w_key e, r_value = w_value e, r_seq = w_seq e, r_delete = w_delete e\<rparr>)
       (entries_after n (ms_wal s))))"
  by (simp_all add: handle_register_def)

text \<open>What a recovering server receives, as operations.\<close>

lemma recovery_ops_register:
  "map recovery_op (map (\<lambda>e. \<lparr>r_key = w_key e, r_value = w_value e, r_seq = w_seq e, r_delete = w_delete e\<rparr>)
      (entries_after n w))
    = filter (\<lambda>x. n < op_seq x) (wal_ops w)"
  by (simp add: wal_ops_after [symmetric] recovery_op_def wal_op_def comp_def)

lemma split_primary_replicas:
  "snd (split_primary p cs (a, rs)) = rs @ map ci_addr (filter (\<lambda>c. ci_id c \<noteq> p) cs)"
  by (induction p cs "(a, rs)" arbitrary: a rs rule: split_primary.induct) simp_all

lemma split_primary_addr:
  "fst (split_primary p cs (a, rs)) = last (a # map ci_addr (filter (\<lambda>c. ci_id c = p) cs))"
  by (induction p cs "(a, rs)" arbitrary: a rs rule: split_primary.induct) simp_all

text \<open>The primary, when the registry holds it alive and files it under its identifier.\<close>

definition primary_alive :: "mserver \<Rightarrow> bool" where
  "primary_alive s \<longleftrightarrow> (\<exists>c. ms_registry s (md_primary (ms_meta s)) = Some c \<and> ci_alive c \<and> ci_addr c \<noteq> [])"

lemma alive_ids:
  assumes "reg_inv r"
  shows "map ci_id (alive_chunks ids r) = filter (\<lambda>i. \<exists>c. r i = Some c \<and> ci_alive c) ids"
  using assms by (induction ids) (auto simp: alive_chunks_def reg_inv_def split: option.splits)

lemma distinct_alive_ids:
  "reg_inv r \<Longrightarrow> range_order r ids \<Longrightarrow> distinct (map ci_id (alive_chunks ids r))"
  by (simp add: alive_ids range_order_def)

lemma filter_eq_single:
  assumes "distinct (map f xs)" "x \<in> set xs"
  shows "filter (\<lambda>y. f y = f x) xs = [x]"
  using assms
proof (induction xs)
  case (Cons a xs)
  have a: "f y \<noteq> f a" if "y \<in> set xs" for y
    using Cons.prems(1) that by (metis distinct.simps(2) image_eqI list.set_map list.simps(9))
  show ?case
    using Cons a by (cases "a = x") (auto simp: filter_empty_conv)
qed simp

lemma split_primary_alive:
  assumes "reg_inv r" "range_order r ids"
  shows "fst (split_primary p (alive_chunks ids r) ([], [])) =
    (case r p of Some c \<Rightarrow> if ci_alive c then ci_addr c else [] | None \<Rightarrow> [])"
proof (cases "\<exists>c. r p = Some c \<and> ci_alive c")
  case True
  then obtain c where c: "r p = Some c" "ci_alive c" by blast
  have mem: "c \<in> set (alive_chunks ids r)" using c assms(2) by (auto simp: alive_chunks_order)
  have "ci_id c = p" using c(1) assms(1) by (simp add: reg_inv_def)
  then have "filter (\<lambda>y. ci_id y = p) (alive_chunks ids r) = [c]"
    using filter_eq_single [OF distinct_alive_ids [OF assms] mem] by simp
  with c show ?thesis by (simp add: split_primary_addr)
next
  case False
  have "filter (\<lambda>y. ci_id y = p) (alive_chunks ids r) = []"
    using False assms by (auto simp: filter_empty_conv alive_chunks_order reg_inv_def)
  with False show ?thesis by (auto simp: split_primary_addr split: option.splits)
qed

lemma handle_get_primary_down:
  assumes "reg_inv (ms_registry s)" "range_order (ms_registry s) ids" "\<not> primary_alive s"
  shows "handle_get_primary ids s = (Answer (GetPrimaryResponse [] [] 0), s)"
proof -
  have "fst (split_primary (md_primary (ms_meta s)) (alive_chunks ids (ms_registry s)) ([], [])) = []"
    using assms(3) by (auto simp: split_primary_alive [OF assms(1,2)] primary_alive_def split: option.split)
  then show ?thesis
    by (auto simp: handle_get_primary_def primary_id_def Let_def split: prod.splits)
qed

lemma handle_get_primary_up:
  assumes "reg_inv (ms_registry s)" "range_order (ms_registry s) ids"
    and "ms_registry s (md_primary (ms_meta s)) = Some c" "ci_alive c" "ci_addr c \<noteq> []"
  shows "handle_get_primary ids s =
    (Answer (GetPrimaryResponse (ci_addr c)
       (map ci_addr (filter (\<lambda>c. ci_id c \<noteq> md_primary (ms_meta s)) (alive_chunks ids (ms_registry s))))
       (md_seq (ms_meta s) + 1)),
     s\<lparr>ms_meta := snd (next_seq_num (ms_meta s))\<rparr>)"
proof -
  have "split_primary (md_primary (ms_meta s)) (alive_chunks ids (ms_registry s)) ([], []) =
    (ci_addr c, map ci_addr (filter (\<lambda>c. ci_id c \<noteq> md_primary (ms_meta s)) (alive_chunks ids (ms_registry s))))"
    using split_primary_alive [OF assms(1,2), of "md_primary (ms_meta s)"] assms(3,4)
      split_primary_replicas [of "md_primary (ms_meta s)" "alive_chunks ids (ms_registry s)" "[]" "[]"]
    by (simp add: prod_eq_iff)
  then show ?thesis
    using assms(5) by (simp add: handle_get_primary_def primary_id_def next_seq_num_def)
qed

text \<open>Fields the dispatch leaves alone.\<close>

lemma handle_get_primary_frame [frame_simps]:
  "ms_registry (snd (handle_get_primary ids s)) = ms_registry s"
  "ms_wal (snd (handle_get_primary ids s)) = ms_wal s"
  "md_primary (ms_meta (snd (handle_get_primary ids s))) = md_primary (ms_meta s)"
  by (auto simp: handle_get_primary_def next_seq_num_def Let_def split: prod.splits)

lemma handle_get_chunk_frame [frame_simps]:
  "ms_registry (snd (handle_get_chunk ids s)) = ms_registry s"
  "ms_wal (snd (handle_get_chunk ids s)) = ms_wal s"
  "ms_meta (snd (handle_get_chunk ids s)) = ms_meta s"
  by (simp_all add: handle_get_chunk_def Let_def)

lemma handle_list_keys_state [simp]: "snd (handle_list_keys ids ask pre s) = s"
  by (simp add: handle_list_keys_def Let_def split: rpc_result.split)

text \<open>A run of the master: connections, each with its circumstances, and rounds of the monitor.\<close>

datatype master_event =
    Conn time "string list" io "addr \<Rightarrow> msg \<Rightarrow> rpc_result" msg
  | Monitor time "string list"

fun master_step :: "master_event \<Rightarrow> mserver \<Rightarrow> mserver" where
  "master_step (Conn now ids io ask m) s = snd (master_conn now ids io ask m s)"
| "master_step (Monitor now ids) s = s\<lparr>ms_registry := monitor_tick now ids (ms_registry s)\<rparr>"

fun registers :: "master_event \<Rightarrow> string set" where
  "registers (Conn now ids io ask (RegisterChunkRequest i a n)) = {i}"
| "registers _ = {}"

definition logged_by :: "master_event \<Rightarrow> wal_entry list" where
  "logged_by e = (case e of
      Conn now ids io ask (WALNotify k v n d) \<Rightarrow> [\<lparr>w_key = k, w_value = v, w_seq = n, w_delete = d\<rparr>]
    | _ \<Rightarrow> [])"

lemma master_step_state:
  assumes "reg_inv (ms_registry s)"
  shows "reg_inv (ms_registry (master_step e s))
    \<and> md_primary (ms_meta (master_step e s)) = md_primary (ms_meta s)
    \<and> dom (ms_registry (master_step e s)) = dom (ms_registry s) \<union> registers e
    \<and> wal_entries (ms_wal (master_step e s)) = wal_entries (ms_wal s) @ logged_by e"
proof -
  have reg: "reg_inv (register t i a n (ms_registry s))" "reg_inv (heartbeat t i a (ms_registry s))"
    "reg_inv (monitor_tick t ids (ms_registry s))" for t i a n ids
    using assms reg_inv_step [of "ms_registry s" "Registered t i a n"] reg_inv_step [of "ms_registry s" "Beat t i a"]
      reg_inv_step [of "ms_registry s" "Tick t ids"] by simp_all
  have dom: "dom (heartbeat t i a r) = dom r" "dom (register t i a n r) = dom r \<union> {i}" for r t i a n
    by (auto simp: heartbeat_def register_def split: option.splits)
  show ?thesis
  proof (cases e)
    case (Conn now ids io ask m)
    then show ?thesis
      by (cases m) (simp_all add: assms reg dom logged_by_def handle_wal_notify_def frame_simps view_simps)
  next
    case (Monitor now ids)
    then show ?thesis by (simp add: reg logged_by_def)
  qed
qed

lemma master_run_state:
  assumes "reg_inv (ms_registry s)"
  shows "reg_inv (ms_registry (fold master_step es s))
    \<and> md_primary (ms_meta (fold master_step es s)) = md_primary (ms_meta s)
    \<and> dom (ms_registry (fold master_step es s)) = dom (ms_registry s) \<union> \<Union> (registers ` set es)
    \<and> wal_entries (ms_wal (fold master_step es s)) = wal_entries (ms_wal s) @ concat (map logged_by es)"
  using assms
proof (induction es arbitrary: s)
  case (Cons e es)
  then show ?case
    using Cons.IH [of "master_step e s"] by (simp add: master_step_state Un_assoc)
qed simp

section \<open>Properties\<close>

text \<open>Claim C36. The master names a primary only while the configured primary counts as alive: then the answer
  holds its address, the addresses of exactly the other alive servers, and the next number; in
  every other case the answer is empty, and the master's state, counter included, is unchanged.\<close>

theorem primary_is_fixed:
  assumes "reg_inv (ms_registry s)" "range_order (ms_registry s) ids"
  shows "if primary_alive s
    then \<exists>c reps. ms_registry s (primary_id (ms_meta s)) = Some c \<and> ci_alive c
      \<and> handle_get_primary ids s =
          (Answer (GetPrimaryResponse (ci_addr c) reps (current_seq_num (ms_meta s) + 1)),
           s\<lparr>ms_meta := snd (next_seq_num (ms_meta s))\<rparr>)
      \<and> set reps = {ci_addr d | i d. ms_registry s i = Some d \<and> ci_alive d \<and> i \<noteq> primary_id (ms_meta s)}
    else handle_get_primary ids s = (Answer (GetPrimaryResponse [] [] 0), s)"
proof (cases "primary_alive s")
  case True
  then obtain c where c: "ms_registry s (md_primary (ms_meta s)) = Some c" "ci_alive c" "ci_addr c \<noteq> []"
    by (auto simp: primary_alive_def)
  have "set (map ci_addr (filter (\<lambda>d. ci_id d \<noteq> md_primary (ms_meta s)) (alive_chunks ids (ms_registry s))))
      = {ci_addr d | i d. ms_registry s i = Some d \<and> ci_alive d \<and> i \<noteq> md_primary (ms_meta s)}"
    using assms by (fastforce simp: alive_chunks_order reg_inv_def image_iff)
  then show ?thesis
    using True c handle_get_primary_up [OF assms c] unfolding primary_id_def current_seq_num_def
    by (simp only: if_True) blast
next
  case False
  then show ?thesis using handle_get_primary_down [OF assms False] by simp
qed

theorem primary_is_fixed_witness:
  "handle_get_primary [''c2'']
      \<lparr>ms_registry = register 0 ''c2'' ''b'' 0 new_registry, ms_meta = new_metadata ''c1'',
        ms_wal = \<lparr>wal_entries = [], wal_file = None\<rparr>, ms_read_idx = 0\<rparr>
    = (Answer (GetPrimaryResponse [] [] 0),
      \<lparr>ms_registry = register 0 ''c2'' ''b'' 0 new_registry, ms_meta = new_metadata ''c1'',
        ms_wal = \<lparr>wal_entries = [], wal_file = None\<rparr>, ms_read_idx = 0\<rparr>)"
  using primary_is_fixed [of "\<lparr>ms_registry = register 0 ''c2'' ''b'' 0 new_registry, ms_meta = new_metadata ''c1'',
        ms_wal = \<lparr>wal_entries = [], wal_file = None\<rparr>, ms_read_idx = 0\<rparr>" "[''c2'']"]
  by (simp add: register_def new_registry_def new_metadata_def reg_inv_def range_order_def primary_alive_def)

text \<open>The number of servers that count as alive does not depend on the order of the visit.\<close>

definition alive_ids_of :: "registry \<Rightarrow> string set" where
  "alive_ids_of r = {i. \<exists>c. r i = Some c \<and> ci_alive c}"

lemma alive_chunks_empty_iff:
  "range_order r ids \<Longrightarrow> alive_chunks ids r = [] \<longleftrightarrow> alive_ids_of r = {}"
proof -
  assume "range_order r ids"
  then have "(\<exists>c. c \<in> set (alive_chunks ids r)) \<longleftrightarrow> (\<exists>i. i \<in> alive_ids_of r)"
    by (auto simp: alive_ids_of_def alive_chunks_order)
  then show ?thesis by (metis ex_in_conv set_empty)
qed

lemma round_robin_index:
  fixes x :: uint64
  assumes "unat x < 2 ^ 63" "n > 0"
  shows "sint x smod int n = int (unat x mod n)"
proof -
  have "int (unat x) < int (2 ^ 63)" using assms(1) by (simp only: of_nat_less_iff)
  then have "uint x < 2 ^ 63" unfolding uint_nat by simp
  moreover have "- (2 ^ 63) \<le> uint x" by (rule order_trans [OF _ uint_ge_0]) simp
  ultimately have "signed_take_bit 63 (uint x) = uint x"
    by (rule signed_take_bit_int_eq_self [rotated])
  then have s: "sint x = int (unat x)" unfolding uint_nat [symmetric] by (simp add: sint_uint)
  show ?thesis unfolding s by (cases "x = 0") (simp_all add: smod_int_alt_def zmod_int)
qed

lemma handle_get_chunk_healthy:
  assumes "range_order (ms_registry s) ids" "unat (ms_read_idx s) + 1 < 2 ^ 63"
  shows "handle_get_chunk ids s =
      (if alive_ids_of (ms_registry s) = {} then (Answer (GetChunkResponse [] False), s)
       else (Answer (GetChunkResponse (ci_addr (alive_chunks ids (ms_registry s)
               ! ((unat (ms_read_idx s) + 1) mod length (alive_chunks ids (ms_registry s))))) True),
             s\<lparr>ms_read_idx := ms_read_idx s + 1\<rparr>))
    \<and> (\<forall>a. fst (handle_get_chunk ids s) = Answer (GetChunkResponse a True)
         \<longrightarrow> (\<exists>i c. ms_registry s i = Some c \<and> ci_alive c \<and> ci_addr c = a))"
proof (cases "alive_ids_of (ms_registry s) = {}")
  case True
  then show ?thesis
    using alive_chunks_empty_iff [OF assms(1)] by (simp add: handle_get_chunk_def)
next
  case False
  let ?al = "alive_chunks ids (ms_registry s)"
  let ?j = "(unat (ms_read_idx s) + 1) mod length ?al"
  have ne: "?al \<noteq> []" using False alive_chunks_empty_iff [OF assms(1)] by simp
  have u: "unat (ms_read_idx s + 1) = unat (ms_read_idx s) + 1"
    using assms(2) by (intro unat_Suc_word) simp
  have "sint (ms_read_idx s + 1) smod int (length ?al) = int ?j"
    using round_robin_index [of "ms_read_idx s + 1" "length ?al"] assms(2) ne u by simp
  then have eq: "handle_get_chunk ids s =
      (Answer (GetChunkResponse (ci_addr (?al ! ?j)) True), s\<lparr>ms_read_idx := ms_read_idx s + 1\<rparr>)"
    using ne by (simp add: handle_get_chunk_def Let_def)
  have "?al ! ?j \<in> set ?al" using ne by (intro nth_mem) simp
  then show ?thesis
    using eq False assms(1) by (auto simp: alive_chunks_order)
qed

text \<open>Claim C37. For the first 2^63 - 1 reads the master names, by position in the visit, the alive server that the
  round robin has come to, and answers that there is none only when no server is alive; a server
  named is always a registered, alive one.\<close>

theorem reads_go_round_robin:
  assumes "range_order (ms_registry s) ids" "unat (ms_read_idx s) + 1 < 2 ^ 63"
  shows "handle_get_chunk ids s =
      (if alive_ids_of (ms_registry s) = {} then (Answer (GetChunkResponse [] False), s)
       else (Answer (GetChunkResponse (ci_addr (alive_chunks ids (ms_registry s)
               ! ((unat (ms_read_idx s) + 1) mod length (alive_chunks ids (ms_registry s))))) True),
             s\<lparr>ms_read_idx := ms_read_idx s + 1\<rparr>))
    \<and> (\<forall>a. fst (handle_get_chunk ids s) = Answer (GetChunkResponse a True)
         \<longrightarrow> (\<exists>i c. ms_registry s i = Some c \<and> ci_alive c \<and> ci_addr c = a))"
  by (rule handle_get_chunk_healthy [OF assms])

theorem reads_go_round_robin_witness:
  "fst (handle_get_chunk [''c2'', ''c1'']
      \<lparr>ms_registry = register 0 ''c2'' ''b'' 0 (register 0 ''c1'' ''a'' 0 new_registry), ms_meta = new_metadata ''c1'',
        ms_wal = \<lparr>wal_entries = [], wal_file = None\<rparr>, ms_read_idx = 0\<rparr>)
    = Answer (GetChunkResponse ''a'' True)"
proof -
  let ?s = "\<lparr>ms_registry = register 0 ''c2'' ''b'' 0 (register 0 ''c1'' ''a'' 0 new_registry), ms_meta = new_metadata ''c1'',
        ms_wal = \<lparr>wal_entries = [], wal_file = None\<rparr>, ms_read_idx = 0\<rparr>"
  have "range_order (ms_registry ?s) [''c2'', ''c1'']"
    by (auto simp: range_order_def register_def new_registry_def)
  moreover have "alive_ids_of (ms_registry ?s) \<noteq> {}"
    by (auto simp: alive_ids_of_def register_def intro!: exI [of _ "''c2''"])
  ultimately show ?thesis
    using conjunct1 [OF reads_go_round_robin [of ?s "[''c2'', ''c1'']"]]
    by (simp add: alive_chunks_def register_def)
qed

text \<open>The round-robin counter is read as a signed number, so once it passes 2^63 the remainder
  can be negative and indexing the list of alive servers crashes the master.\<close>

theorem round_robin_counter_can_crash:
  assumes "alive_chunks ids (ms_registry s) = [c1, c2, c3]" "ms_read_idx s = 2 ^ 63 - 1"
  shows "fst (handle_get_chunk ids s) = Panic"
  using assms by (simp add: handle_get_chunk_def smod_int_alt_def)

theorem round_robin_counter_can_crash_witness:
  "fst (handle_get_chunk [''c1'', ''c2'', ''c3'']
      \<lparr>ms_registry = register 0 ''c3'' ''c'' 0 (register 0 ''c2'' ''b'' 0 (register 0 ''c1'' ''a'' 0 new_registry)),
        ms_meta = new_metadata ''c1'', ms_wal = \<lparr>wal_entries = [], wal_file = None\<rparr>, ms_read_idx = 2 ^ 63 - 1\<rparr>)
    = Panic"
  by (rule round_robin_counter_can_crash) (simp_all add: alive_chunks_def register_def)

text \<open>Claim C18. Whatever connections a started master serves and however often its monitor runs, every
  info stays filed under its own identifier, exactly the servers that registered are in the
  registry, the configured primary stays the same, and the log is the one read at start followed
  by the notified operations in their order.\<close>

theorem master_state_well_formed:
  assumes "master_boot p mkdir_err ok f = Inr s0"
  shows "let s = fold master_step es s0 in
    reg_inv (ms_registry s) \<and> dom (ms_registry s) = \<Union> (registers ` set es)
    \<and> primary_id (ms_meta s) = p
    \<and> wal_entries (ms_wal s) = wal_entries (ms_wal s0) @ concat (map logged_by es)"
proof -
  have "ms_registry s0 = new_registry" "md_primary (ms_meta s0) = p"
    using assms by (auto simp: master_boot_def master_start_def new_metadata_def split: sum.splits)
  then show ?thesis
    using master_run_state [of s0 es] reg_inv_new by (simp add: primary_id_def new_registry_def Let_def)
qed

theorem master_state_well_formed_witness:
  "dom (ms_registry (fold master_step
      [Conn 0 [] IoOk (\<lambda>_ _. DialErr) (HeartbeatMsg ''c2'' ''b''),
       Conn 1 [] IoOk (\<lambda>_ _. DialErr) (RegisterChunkRequest ''c1'' ''a'' 0), Monitor 9 [''c1'']]
      (master_start \<lparr>ms_registry = new_registry, ms_meta = new_metadata ''c1'',
         ms_wal = \<lparr>wal_entries = [], wal_file = None\<rparr>, ms_read_idx = 0\<rparr>))) = {''c1''}"
proof -
  let ?s0 = "master_start \<lparr>ms_registry = new_registry, ms_meta = new_metadata ''c1'',
         ms_wal = \<lparr>wal_entries = [], wal_file = None\<rparr>, ms_read_idx = 0\<rparr>"
  let ?es = "[Conn 0 [] IoOk (\<lambda>_ _. DialErr) (HeartbeatMsg ''c2'' ''b''),
       Conn 1 [] IoOk (\<lambda>_ _. DialErr) (RegisterChunkRequest ''c1'' ''a'' 0), Monitor 9 [''c1'']]"
  have "master_boot ''c1'' None True None = Inr ?s0"
    by (simp add: master_boot_def new_wal_def)
  from master_state_well_formed [OF this, of ?es] show ?thesis by (simp add: Let_def)
qed

end
