(* ===== verification/Cluster.thy ===== *)
theory Cluster
  imports Chunk_Server Master_Server
begin

text \<open>
  The system: one master process and the chunk servers, reached at the addresses they
  advertise. A process that is down does not accept connections and keeps only its files.
  Requests between the processes go through \<open>rpc\<close>; everything the environment decides (the
  time, map orders, disk outcomes, what the network does to each request) is in an \<open>env\<close>.
\<close>

section \<open>State\<close>

record cserver =
  cs_id :: string
  cs_addr :: addr
  cs_store :: store

record world =
  w_master :: "mserver option"
  w_chunks :: "addr \<rightharpoonup> cserver"

record env =
  en_now :: time
  en_ids :: "string list"
  en_keys :: "addr \<Rightarrow> key list"
  en_io :: "addr \<Rightarrow> io"
  en_wal_io :: io
  en_fate :: "addr \<Rightarrow> fate"
  en_master_fate :: fate

section \<open>Requests\<close>

definition own_store :: "addr \<Rightarrow> world store_access" where
  "own_store a f w =
    (case w_chunks w a of
       None \<Rightarrow> (None, w)
     | Some srv \<Rightarrow>
         let (r, st) = f (cs_store srv)
         in (r, w\<lparr>w_chunks := (w_chunks w)(a \<mapsto> srv\<lparr>cs_store := st\<rparr>)\<rparr>))"

definition leaf_at :: "env \<Rightarrow> addr \<Rightarrow> msg \<Rightarrow> world \<Rightarrow> outcome \<times> world" where
  "leaf_at en a m w =
    (case w_chunks w a of
       None \<Rightarrow> (Silent, w)
     | Some srv \<Rightarrow>
         let (r, st) = chunk_leaf (en_io en a) (en_keys en a) m (cs_store srv)
         in (r, w\<lparr>w_chunks := (w_chunks w)(a \<mapsto> srv\<lparr>cs_store := st\<rparr>)\<rparr>))"

definition call_leaf :: "env \<Rightarrow> addr \<Rightarrow> world call" where
  "call_leaf en a m w =
    (if w_chunks w a = None then (DialErr, w) else rpc (en_fate en a) (leaf_at en a m) w)"

definition master_at :: "env \<Rightarrow> msg \<Rightarrow> world \<Rightarrow> outcome \<times> world" where
  "master_at en m w =
    (case w_master w of
       None \<Rightarrow> (Silent, w)
     | Some s \<Rightarrow>
         (case master_conn (en_now en) (en_ids en) (en_wal_io en) (\<lambda>a m. fst (call_leaf en a m w)) m s of
            (Panic, s) \<Rightarrow> (Panic, w\<lparr>w_master := None\<rparr>)
          | (r, s) \<Rightarrow> (r, w\<lparr>w_master := Some s\<rparr>)))"

definition call_master :: "env \<Rightarrow> world call" where
  "call_master en m w =
    (if w_master w = None then (DialErr, w) else rpc (en_master_fate en) (master_at en m) w)"

definition chunk_at :: "env \<Rightarrow> addr \<Rightarrow> msg \<Rightarrow> world \<Rightarrow> outcome \<times> world" where
  "chunk_at en a m w =
    chunk_conn (own_store a) (call_master en) (call_leaf en) (leaf_at en a m) (en_io en a) m w"

definition call_chunk :: "env \<Rightarrow> addr \<Rightarrow> world call" where
  "call_chunk en a m w =
    (if w_chunks w a = None then (DialErr, w) else rpc (en_fate en a) (chunk_at en a m) w)"

section \<open>Registration and heartbeats of a chunk server\<close>

text \<open>One round of the loop of \<open>registerWithMaster\<close>; the flag says whether it returned.\<close>

definition register_attempt :: "env \<Rightarrow> (nat \<Rightarrow> io) \<Rightarrow> addr \<Rightarrow> world \<Rightarrow> bool \<times> world" where
  "register_attempt en ios a w =
    (case w_chunks w a of
       None \<Rightarrow> (False, w)
     | Some srv \<Rightarrow>
         (case call_master en (RegisterChunkRequest (cs_id srv) (cs_addr srv) (last_seq_num (cs_store srv))) w of
            (DialErr, w) \<Rightarrow> (False, w)
          | (RecvErr, w) \<Rightarrow> (False, w)
          | (Got resp, w) \<Rightarrow> (True, snd (own_store a (\<lambda>st. (None, recover_from ios resp st)) w))))"

text \<open>The loop, over the circumstances of the attempts made so far.\<close>

fun register_with_master :: "(env \<times> (nat \<Rightarrow> io)) list \<Rightarrow> addr \<Rightarrow> world \<Rightarrow> bool \<times> world" where
  "register_with_master [] a w = (False, w)"
| "register_with_master ((en, ios) # rest) a w =
    (case register_attempt en ios a w of
       (True, w) \<Rightarrow> (True, w)
     | (False, w) \<Rightarrow> register_with_master rest a w)"

definition send_heartbeat :: "env \<Rightarrow> addr \<Rightarrow> world \<Rightarrow> world" where
  "send_heartbeat en a w =
    (case w_chunks w a of
       None \<Rightarrow> w
     | Some srv \<Rightarrow> snd (call_master en (HeartbeatMsg (cs_id srv) (cs_addr srv)) w))"

section \<open>Processes that stop and start\<close>

definition stop_chunk :: "addr \<Rightarrow> world \<Rightarrow> world" where
  "stop_chunk a w = w\<lparr>w_chunks := (w_chunks w)(a := None)\<rparr>"

definition start_chunk ::
  "string \<Rightarrow> addr \<Rightarrow> string option \<Rightarrow> (string \<Rightarrow> string option) \<Rightarrow> string list \<Rightarrow>
    (string \<rightharpoonup> entry content) \<Rightarrow> world \<Rightarrow> string + world" where
  "start_chunk cid a mkdir_err rd listing files w =
    (case new_store mkdir_err rd listing files of
       Inl err \<Rightarrow> Inl err
     | Inr st \<Rightarrow> Inr (w\<lparr>w_chunks := (w_chunks w)(a \<mapsto> \<lparr>cs_id = cid, cs_addr = a, cs_store = st\<rparr>)\<rparr>))"

definition stop_master :: "world \<Rightarrow> world" where
  "stop_master w = w\<lparr>w_master := None\<rparr>"

definition start_master ::
  "string \<Rightarrow> string option \<Rightarrow> bool \<Rightarrow> wal_entry list content option \<Rightarrow> world \<Rightarrow> string + world" where
  "start_master primaryID mkdir_err read_ok file w =
    (case master_boot primaryID mkdir_err read_ok file of
       Inl err \<Rightarrow> Inl err
     | Inr s \<Rightarrow> Inr (w\<lparr>w_master := Some s\<rparr>))"

definition monitor :: "env \<Rightarrow> world \<Rightarrow> world" where
  "monitor en w =
    w\<lparr>w_master := map_option (\<lambda>s. s\<lparr>ms_registry := monitor_tick (en_now en) (en_ids en) (ms_registry s)\<rparr>) (w_master w)\<rparr>"

section \<open>Lemmas\<close>

text \<open>The entries the server at an address holds in memory; none when it is down.\<close>

definition entries_at :: "world \<Rightarrow> addr \<Rightarrow> versions" where
  "entries_at w a = (case w_chunks w a of None \<Rightarrow> Map.empty | Some srv \<Rightarrow> st_entries (cs_store srv))"

lemma own_store_master [frame_simps]: "w_master (snd (own_store a f w)) = w_master w"
  by (simp add: own_store_def split: option.split prod.split)

lemma own_store_other [frame_simps]: "b \<noteq> a \<Longrightarrow> w_chunks (snd (own_store a f w)) b = w_chunks w b"
  by (simp add: own_store_def split: option.split prod.split)

lemma own_store_dom [frame_simps]: "dom (w_chunks (snd (own_store a f w))) = dom (w_chunks w)"
  by (auto simp: own_store_def split: option.splits prod.splits)

lemma own_store_same:
  "w_chunks w a = Some srv \<Longrightarrow>
    own_store a f w = (fst (f (cs_store srv)),
      w\<lparr>w_chunks := (w_chunks w)(a \<mapsto> srv\<lparr>cs_store := snd (f (cs_store srv))\<rparr>)\<rparr>)"
  by (simp add: own_store_def split: prod.split)

lemma entries_own_store:
  "w_chunks w a = Some srv \<Longrightarrow>
    entries_at (snd (own_store a f w)) b = (if b = a then st_entries (snd (f (cs_store srv))) else entries_at w b)"
  by (simp add: own_store_same entries_at_def)

lemma leaf_at_master [frame_simps]: "w_master (snd (leaf_at en a m w)) = w_master w"
  by (simp add: leaf_at_def split: option.split prod.split)

lemma leaf_at_own_store:
  "snd (leaf_at en a m w) =
    snd (own_store a (\<lambda>st. (None, snd (chunk_leaf (en_io en a) (en_keys en a) m st))) w)"
  by (simp add: leaf_at_def own_store_def split: option.split prod.split)

lemma call_leaf_state: "snd (call_leaf en a m w) = w \<or> snd (call_leaf en a m w) = snd (leaf_at en a m w)"
  using rpc_state [of "en_fate en a" "leaf_at en a m" w] by (simp add: call_leaf_def)

lemma leaf_at_replicate:
  "snd (leaf_at en a (ReplicateRequest k v n d) w) =
    snd (own_store a (\<lambda>st. (None, store_apply (en_io en a) (replicate_op k v n d) st)) w)"
proof -
  have "(\<lambda>st. (None :: string option, snd (chunk_leaf (en_io en a) (en_keys en a) (ReplicateRequest k v n d) st)))
      = (\<lambda>st. (None, store_apply (en_io en a) (replicate_op k v n d) st))"
    by (simp add: fun_eq_iff handle_replicate_state [symmetric] split: prod.split)
  then show ?thesis by (simp only: leaf_at_own_store)
qed

lemma call_leaf_replicate:
  "snd (call_leaf en a (ReplicateRequest k v n d) w) = w \<or>
   snd (call_leaf en a (ReplicateRequest k v n d) w) =
     snd (own_store a (\<lambda>st. (None, store_apply (en_io en a) (replicate_op k v n d) st)) w)"
  using call_leaf_state [of en a "ReplicateRequest k v n d" w] by (simp only: leaf_at_replicate)

lemma call_leaf_master [frame_simps]: "w_master (snd (call_leaf en a m w)) = w_master w"
  using call_leaf_state [of en a m w] by (auto simp: leaf_at_master)

lemma master_at_chunks [frame_simps]: "w_chunks (snd (master_at en m w)) = w_chunks w"
  by (simp add: master_at_def split: option.split prod.split outcome.split)

lemma call_master_state: "snd (call_master en m w) = w \<or> snd (call_master en m w) = snd (master_at en m w)"
  using rpc_state [of "en_master_fate en" "master_at en m" w] by (simp add: call_master_def)

lemma call_master_chunks [frame_simps]: "w_chunks (snd (call_master en m w)) = w_chunks w"
  using call_master_state [of en m w] by (auto simp: master_at_chunks)

lemma entries_call_master [frame_simps]: "entries_at (snd (call_master en m w)) = entries_at w"
  by (simp add: entries_at_def [abs_def] frame_simps)

lemma entries_call_leaf:
  "entries_at (snd (call_leaf en a (ReplicateRequest k v n d) w)) b = entries_at w b \<or>
   b = a \<and> entries_at (snd (call_leaf en a (ReplicateRequest k v n d) w)) b
     = lww (replicate_op k v n d) (entries_at w b)"
proof (cases "w_chunks w a")
  case None
  then show ?thesis by (simp add: call_leaf_def)
next
  case (Some srv)
  then show ?thesis
    using call_leaf_replicate [of en a k v n d w] store.view_apply
    by (auto simp: entries_own_store) (simp add: entries_at_def)
qed

text \<open>
  The network as the chunk servers see it: two instances of the interface, one for the shape of
  the running system, one for the order on the versions every server holds.
\<close>

interpretation shape: chunk_network "own_store a" "call_master en" "call_leaf en" "\<lambda>_. True"
  "\<lambda>w. dom (w_chunks w) = D" for a en D
proof (unfold_locales, goal_cases)
  case (1 x w io)
  then show ?case by (simp add: frame_simps)
next
  case (2 w k)
  then show ?case by (simp add: frame_simps)
next
  case (3 k v n d w b)
  then show ?case
    using call_leaf_replicate [of en b k v n d w]
      own_store_dom [of b "\<lambda>st. (None, store_apply (en_io en b) (replicate_op k v n d) st)" w]
    by presburger
qed

lemma versions_own_store:
  assumes "\<forall>b. v0 b \<le> entries_at w b" "\<And>st. st_entries st \<le> st_entries (snd (f st))"
  shows "\<forall>b. v0 b \<le> entries_at (snd (own_store a f w)) b"
proof
  fix b
  show "v0 b \<le> entries_at (snd (own_store a f w)) b"
  proof (cases "w_chunks w a")
    case None
    then show ?thesis using assms(1) by (simp add: own_store_def)
  next
    case (Some srv)
    have "v0 a \<le> st_entries (cs_store srv)"
      using assms(1) Some by (metis entries_at_def option.simps(5))
    also have "\<dots> \<le> st_entries (snd (f (cs_store srv)))" by (rule assms(2))
    finally show ?thesis using assms(1) Some by (simp add: entries_own_store)
  qed
qed

lemma store_apply_increasing: "st_entries st \<le> st_entries (store_apply io x st)"
  by (simp add: store.view_apply lww_increasing)

interpretation versions: chunk_network "own_store a" "call_master en" "call_leaf en" "\<lambda>_. True"
  "\<lambda>w. \<forall>b. v0 b \<le> entries_at w b" for a en v0
proof (unfold_locales, goal_cases)
  case (1 x w io)
  then show ?case
    by (intro versions_own_store) (simp_all add: store_apply_increasing [unfolded store_apply_def])
next
  case (2 w k)
  then show ?case by (simp add: frame_simps)
next
  case (3 k v n d w b)
  then show ?case
    using call_leaf_replicate [of en b k v n d w]
      versions_own_store [of v0 w "\<lambda>st. (None, store_apply (en_io en b) (replicate_op k v n d) st)" b]
    by (auto simp: store_apply_increasing)
qed

end
