(* ===== verification/Replication.thy ===== *)
theory Replication
  imports Cluster
begin

text \<open>
  What the composed system does: a write or a deletion at the primary with and without
  failures, reading it back, the registration and recovery of a server that was away, and the registration of
  all servers after a restart of the master.
\<close>

section \<open>One operation at a chunk server\<close>

lemma entries_call_leaf_fine:
  assumes "en_fate en a = Fine" "w_chunks w a \<noteq> None"
  shows "entries_at (snd (call_leaf en a (ReplicateRequest k v n d) w)) b =
    (if b = a then lww (replicate_op k v n d) (entries_at w b) else entries_at w b)"
proof -
  obtain srv where srv: "w_chunks w a = Some srv" using assms(2) by blast
  have "snd (call_leaf en a (ReplicateRequest k v n d) w) = snd (leaf_at en a (ReplicateRequest k v n d) w)"
    using assms by (auto simp: call_leaf_def split: prod.splits outcome.splits)
  then show ?thesis
    using srv by (simp add: leaf_at_replicate entries_own_store store.view_apply) (simp add: entries_at_def)
qed

lemma call_leaf_dom: "dom (w_chunks (snd (call_leaf en a (ReplicateRequest k v n d) w))) = dom (w_chunks w)"
  by (rule shape.chunk_inv) simp_all

text \<open>The replication loop, when every replica is up and reachable.\<close>

lemma replicate_all_fine:
  assumes "\<forall>a \<in> set replicas. en_fate en a = Fine \<and> w_chunks w a \<noteq> None"
  shows "entries_at (replicate_all (call_leaf en) replicas k v n d w) b =
    (if b \<in> set replicas then lww (replicate_op k v n d) (entries_at w b) else entries_at w b)"
  using assms
proof (induction replicas arbitrary: w)
  case Nil
  then show ?case by (simp add: replicate_all_def)
next
  case (Cons a as)
  let ?w = "snd (call_leaf en a (ReplicateRequest k v n d) w)"
  have "\<forall>c \<in> set as. en_fate en c = Fine \<and> w_chunks ?w c \<noteq> None"
    using Cons.prems call_leaf_dom [of en a k v n d w] by (auto simp: domIff set_eq_iff)
  note IH = Cons.IH [OF this]
  have "replicate_all (call_leaf en) (a # as) k v n d w = replicate_all (call_leaf en) as k v n d ?w"
    by (simp add: replicate_all_def replicate_to_state)
  then show ?case
    using IH entries_call_leaf_fine [of en a w k v n d b] Cons.prems by auto
qed

text \<open>The same loop, whatever happens to the requests.\<close>

lemma replicate_all_any:
  "entries_at (replicate_all (call_leaf en) replicas k v n d w) b = entries_at w b \<or>
   b \<in> set replicas \<and>
     entries_at (replicate_all (call_leaf en) replicas k v n d w) b = lww (replicate_op k v n d) (entries_at w b)"
proof (induction replicas arbitrary: w)
  case Nil
  then show ?case by (simp add: replicate_all_def)
next
  case (Cons a as)
  let ?w = "snd (call_leaf en a (ReplicateRequest k v n d) w)"
  have step: "replicate_all (call_leaf en) (a # as) k v n d w = replicate_all (call_leaf en) as k v n d ?w"
    by (simp add: replicate_all_def replicate_to_state)
  have "entries_at ?w b = entries_at w b \<or>
      b = a \<and> entries_at ?w b = lww (replicate_op k v n d) (entries_at w b)"
    by (rule entries_call_leaf)
  then show ?case
    unfolding step using Cons.IH [of ?w] by (elim disjE conjE) simp_all
qed

text \<open>
  \<open>handle_write\<close> and \<open>handle_delete\<close> in one form: the local operation, the question to the master,
  the loop.
\<close>

definition after_local :: "env \<Rightarrow> addr \<Rightarrow> op \<Rightarrow> world \<Rightarrow> world" where
  "after_local en a x w = snd (own_store a (store_apply_result (en_io en a) x) w)"

definition replicas_told :: "env \<Rightarrow> addr \<Rightarrow> op \<Rightarrow> world \<Rightarrow> addr list" where
  "replicas_told en a x w = fst (get_replica_addrs (call_master en) (op_key x) (after_local en a x w))"

definition after_op :: "env \<Rightarrow> addr \<Rightarrow> op \<Rightarrow> world \<Rightarrow> world" where
  "after_op en a x w =
    (if fst (own_store a (store_apply_result (en_io en a) x) w) \<noteq> None then after_local en a x w
     else replicate_all (call_leaf en) (replicas_told en a x w) (op_key x) (op_value x) (op_seq x) (op_delete x)
       (snd (get_replica_addrs (call_master en) (op_key x) (after_local en a x w))))"

lemma handle_write_after_op:
  "snd (chunk_at en a (WriteRequest k v n) w) = after_op en a (put_op k v n) w"
  by (auto simp: chunk_at_def handle_write_def after_op_def after_local_def replicas_told_def
      put_is_apply [abs_def] split: prod.splits option.splits)

lemma handle_delete_after_op:
  "snd (chunk_at en a (DeleteRequest k n) w) = after_op en a (delete_op k n) w"
  by (auto simp: chunk_at_def handle_delete_def after_op_def after_local_def replicas_told_def
      delete_is_apply [abs_def] split: prod.splits option.splits)

lemma write_reply:
  "fst (chunk_at en a (WriteRequest k v n) w) =
    (case fst (own_store a (put (en_io en a) k v n) w) of
       Some err \<Rightarrow> Answer (WriteResponse False 0 err) | None \<Rightarrow> Answer (WriteResponse True n []))"
  by (simp add: chunk_at_def handle_write_def split: prod.splits option.splits)

lemma delete_reply:
  "fst (chunk_at en a (DeleteRequest k n) w) =
    (case fst (own_store a (delete (en_io en a) k n) w) of
       Some err \<Rightarrow> Answer (DeleteResponse False err) | None \<Rightarrow> Answer (DeleteResponse True []))"
  by (simp add: chunk_at_def handle_delete_def split: prod.splits option.splits)

lemma entries_after_local:
  "w_chunks w a \<noteq> None \<Longrightarrow>
    entries_at (after_local en a x w) b = (if b = a then lww x (entries_at w b) else entries_at w b)"
  by (auto simp: after_local_def entries_own_store entries_apply) (simp add: entries_at_def)

lemma after_local_master [frame_simps]: "w_master (after_local en a x w) = w_master w"
  by (simp add: after_local_def frame_simps)

lemma after_local_dom [frame_simps]: "dom (w_chunks (after_local en a x w)) = dom (w_chunks w)"
  by (simp add: after_local_def frame_simps)

lemma get_replica_addrs_frame [frame_simps]:
  "entries_at (snd (get_replica_addrs (call_master en) k w)) = entries_at w"
  "w_chunks (snd (get_replica_addrs (call_master en) k w)) = w_chunks w"
  by (simp_all add: get_replica_addrs_state frame_simps)

lemma replicate_op_of [simp]:
  "replicate_op (op_key x) (op_value x) (op_seq x) (op_delete x) = x"
  by (simp add: replicate_op_def)

section \<open>A healthy system\<close>

text \<open>
  The environment lets every request and every disk write through, and the registry is right:
  the primary is registered, alive, and every server that counts as alive is up at its address.
\<close>

definition all_fine :: "env \<Rightarrow> bool" where
  "all_fine en \<longleftrightarrow> en_io en = (\<lambda>_. IoOk) \<and> en_fate en = (\<lambda>_. Fine) \<and> en_master_fate en = Fine \<and> en_wal_io en = IoOk"

definition master_knows :: "env \<Rightarrow> world \<Rightarrow> mserver \<Rightarrow> chunk_info \<Rightarrow> bool" where
  "master_knows en w s c \<longleftrightarrow> w_master w = Some s \<and> reg_inv (ms_registry s) \<and> range_order (ms_registry s) (en_ids en)
     \<and> ms_registry s (md_primary (ms_meta s)) = Some c \<and> ci_alive c \<and> ci_addr c \<noteq> []"

definition alive_addrs :: "mserver \<Rightarrow> addr set" where
  "alive_addrs s = {ci_addr c | i c. ms_registry s i = Some c \<and> ci_alive c}"

lemma get_primary_fine:
  assumes "all_fine en" "master_knows en w s c"
  shows "call_master en (GetPrimaryRequest k) w =
    (Got (GetPrimaryResponse (ci_addr c)
       (map ci_addr (filter (\<lambda>c. ci_id c \<noteq> md_primary (ms_meta s)) (alive_chunks (en_ids en) (ms_registry s))))
       (md_seq (ms_meta s) + 1)),
     w\<lparr>w_master := Some (s\<lparr>ms_meta := snd (next_seq_num (ms_meta s))\<rparr>)\<rparr>)"
proof -
  have "handle_get_primary (en_ids en) s =
    (Answer (GetPrimaryResponse (ci_addr c)
       (map ci_addr (filter (\<lambda>c. ci_id c \<noteq> md_primary (ms_meta s)) (alive_chunks (en_ids en) (ms_registry s))))
       (md_seq (ms_meta s) + 1)), s\<lparr>ms_meta := snd (next_seq_num (ms_meta s))\<rparr>)"
    using assms(2) by (intro handle_get_primary_up) (auto simp: master_knows_def)
  then show ?thesis
    using assms by (simp add: call_master_def master_at_def all_fine_def master_knows_def)
qed

lemma replicas_told_fine:
  assumes "all_fine en" "master_knows en w s c"
  shows "insert (ci_addr c) (set (replicas_told en a x w)) = alive_addrs s"
proof -
  have mk: "master_knows en (after_local en a x w) s c"
    using assms(2) by (simp add: master_knows_def frame_simps)
  have "set (replicas_told en a x w) =
      ci_addr ` {c \<in> set (alive_chunks (en_ids en) (ms_registry s)). ci_id c \<noteq> md_primary (ms_meta s)}"
    unfolding replicas_told_def get_replica_addrs_def get_primary_fine [OF assms(1) mk] by simp
  also have "\<dots> = ci_addr ` {c. \<exists>i. ms_registry s i = Some c \<and> ci_alive c \<and> i \<noteq> md_primary (ms_meta s)}"
  proof -
    have "c \<in> set (alive_chunks (en_ids en) (ms_registry s)) \<and> ci_id c \<noteq> md_primary (ms_meta s) \<longleftrightarrow>
        (\<exists>i. ms_registry s i = Some c \<and> ci_alive c \<and> i \<noteq> md_primary (ms_meta s))" for c
      using assms(2) by (auto simp: master_knows_def alive_chunks_order reg_inv_def)
    then show ?thesis by simp
  qed
  finally show ?thesis
    using assms(2) by (fastforce simp: alive_addrs_def master_knows_def)
qed

text \<open>Deletions and writes alike, in a healthy system, at the primary.\<close>

lemma after_op_fine:
  assumes fine: "all_fine en" and mk: "master_knows en w s c"
    and up: "alive_addrs s \<subseteq> dom (w_chunks w)"
  shows "entries_at (after_op en (ci_addr c) x w) b =
    (if b \<in> alive_addrs s then lww x (entries_at w b) else entries_at w b)"
proof -
  let ?a = "ci_addr c"
  let ?w1 = "after_local en ?a x w"
  let ?w2 = "snd (get_replica_addrs (call_master en) (op_key x) ?w1)"
  have told: "insert ?a (set (replicas_told en ?a x w)) = alive_addrs s"
    using replicas_told_fine [OF fine mk] .
  then have upa: "w_chunks w ?a \<noteq> None" using up by auto
  have ok: "fst (own_store ?a (store_apply_result (en_io en ?a) x) w) = None"
    using upa fine by (auto simp: own_store_same error_apply all_fine_def)
  have "\<forall>b \<in> set (replicas_told en ?a x w). en_fate en b = Fine \<and> w_chunks ?w2 b \<noteq> None"
  proof
    fix b assume "b \<in> set (replicas_told en ?a x w)"
    then have "b \<in> dom (w_chunks w)" using told up by auto
    then have "b \<in> dom (w_chunks ?w2)" by (simp add: frame_simps del: domIff)
    then show "en_fate en b = Fine \<and> w_chunks ?w2 b \<noteq> None"
      using fine by (simp add: all_fine_def domIff)
  qed
  from replicate_all_fine [OF this, of "op_key x" "op_value x" "op_seq x" "op_delete x" b]
  have "entries_at (after_op en ?a x w) b =
      (if b \<in> set (replicas_told en ?a x w) then lww x (entries_at ?w1 b) else entries_at ?w1 b)"
    using ok by (simp add: after_op_def frame_simps)
  then show ?thesis
    using told by (auto simp: entries_after_local [OF upa])
qed

section \<open>Any environment\<close>

lemma after_op_any:
  assumes "w_chunks w a \<noteq> None"
  shows "entries_at (after_op en a x w) a = lww x (entries_at w a)
    \<and> (entries_at (after_op en a x w) b = entries_at w b \<or> entries_at (after_op en a x w) b = lww x (entries_at w b))"
proof (cases "fst (own_store a (store_apply_result (en_io en a) x) w) = None")
  case True
  let ?w1 = "after_local en a x w"
  let ?w2 = "snd (get_replica_addrs (call_master en) (op_key x) ?w1)"
  have *: "entries_at (after_op en a x w) d = entries_at ?w1 d \<or>
      entries_at (after_op en a x w) d = lww x (entries_at ?w1 d)" for d
    using replicate_all_any [of en "replicas_told en a x w" "op_key x" "op_value x" "op_seq x" "op_delete x" ?w2 d] True
    by (auto simp: after_op_def frame_simps)
  show ?thesis
    using * [of a] * [of b] by (cases "b = a") (auto simp: entries_after_local [OF assms])
next
  case False
  then show ?thesis by (simp add: after_op_def entries_after_local [OF assms])
qed

lemma after_op_down: "w_chunks w a = None \<Longrightarrow> entries_at (after_op en a x w) b = entries_at w b
    \<or> entries_at (after_op en a x w) b = lww x (entries_at w b)"
  using replicate_all_any [of en "replicas_told en a x w" "op_key x" "op_value x" "op_seq x" "op_delete x"
      "snd (get_replica_addrs (call_master en) (op_key x) (after_local en a x w))" b]
  by (auto simp: after_op_def frame_simps after_local_def own_store_def)

lemma leaf_entries:
  "entries_at (snd (leaf_at en a m w)) b = entries_at w b \<or>
    (\<exists>x. entries_at (snd (leaf_at en a m w)) b = lww x (entries_at w b))"
proof (cases "w_chunks w a")
  case None
  then show ?thesis by (simp add: leaf_at_def)
next
  case (Some srv)
  then show ?thesis
    using chunk_leaf_state [of "en_io en a" "en_keys en a" m "cs_store srv"]
    by (auto simp: leaf_at_own_store entries_own_store store.view_apply) (auto simp: entries_at_def)
qed

lemma chunk_at_entries:
  "entries_at (snd (chunk_at en a m w)) b = entries_at w b \<or>
    (\<exists>x. entries_at (snd (chunk_at en a m w)) b = lww x (entries_at w b))"
proof -
  have ops: "entries_at (after_op en a x w) b = entries_at w b \<or>
      (\<exists>y. entries_at (after_op en a x w) b = lww y (entries_at w b))" for x
    using after_op_any [of w a en x b] after_op_down [of w a en x b] by blast
  have other: "snd (chunk_at en a m w) = snd (leaf_at en a m w) \<or>
      (\<exists>x. snd (chunk_at en a m w) = after_op en a x w)"
    using handle_write_after_op [of en a _ _ _ w] handle_delete_after_op [of en a _ _ w]
    by (cases m) (auto simp: chunk_at_def)
  then show ?thesis
  proof
    assume "snd (chunk_at en a m w) = snd (leaf_at en a m w)"
    then show ?thesis using leaf_entries [of en a m w b] by (simp only: refl)
  next
    assume "\<exists>x. snd (chunk_at en a m w) = after_op en a x w"
    then obtain x where eq: "snd (chunk_at en a m w) = after_op en a x w" ..
    show ?thesis unfolding eq by (rule ops)
  qed
qed

section \<open>Reading\<close>

lemma call_chunk_read:
  assumes "en_fate en b = Fine" "w_chunks w b \<noteq> None"
  shows "fst (call_chunk en b (ReadRequest k) w) = Got (handle_read k (cs_store (the (w_chunks w b))))
    \<and> entries_at (snd (call_chunk en b (ReadRequest k) w)) = entries_at w"
proof -
  obtain srv where "w_chunks w b = Some srv" using assms(2) by blast
  then show ?thesis
    using assms by (auto simp: call_chunk_def chunk_at_def leaf_at_def entries_at_def fun_eq_iff)
qed

lemma handle_read_entries:
  "w_chunks w b = Some srv \<Longrightarrow> handle_read k (cs_store srv) =
    (case entries_at w b k of
       Some e \<Rightarrow> if e_deleted e then ReadResponse [] False 0 else ReadResponse (e_value e) True (e_seq e)
     | None \<Rightarrow> ReadResponse [] False 0)"
  by (simp add: handle_read_def get_def entries_at_def split: option.split)

section \<open>Recovery\<close>

text \<open>The chunk store and the master's log fulfil the recovery interface.\<close>

interpretation chunk_recovery: recovery store_apply st_entries last_seq_num wal_ops
  "\<lambda>w n. map wal_op (entries_after n w)"
  by unfold_locales (rule wal_ops_after)

lemma recover_from_entries:
  "recover_from ios (RecoveryResponse es) st =
    deliver store_apply (zip (map ios [0..<length es]) (map recovery_op es)) st"
  by (simp add: recover_from_def apply_recovery_def)

text \<open>The master once a server has registered.\<close>

definition registered :: "env \<Rightarrow> cserver \<Rightarrow> mserver \<Rightarrow> mserver" where
  "registered en srv s = s\<lparr>ms_registry :=
    register (en_now en) (cs_id srv) (cs_addr srv) (last_seq_num (cs_store srv)) (ms_registry s)\<rparr>"

lemma registered_simps [simp]:
  "ms_meta (registered en srv s) = ms_meta s" "ms_wal (registered en srv s) = ms_wal s"
  "registered en srv (registered en' srv s) = registered en srv s"
  by (simp_all add: registered_def register_def)

lemma register_call:
  assumes "w_master w = Some s"
  shows "master_at en (RegisterChunkRequest (cs_id srv) (cs_addr srv) (last_seq_num (cs_store srv))) w =
    (Answer (RecoveryResponse (map (\<lambda>e. \<lparr>r_key = w_key e, r_value = w_value e, r_seq = w_seq e, r_delete = w_delete e\<rparr>)
        (entries_after (last_seq_num (cs_store srv)) (ms_wal s)))), w\<lparr>w_master := Some (registered en srv s)\<rparr>)"
  using assms by (simp add: master_at_def handle_register_def registered_def Let_def)

text \<open>An attempt that is not answered may still have reached the master, but changes nothing else.\<close>

lemma register_attempt_failed:
  assumes "en_master_fate en \<noteq> Fine" "w_master w = Some s" "w_chunks w a = Some srv"
  shows "\<exists>s' \<in> {s, registered en srv s}. register_attempt en ios a w = (False, w\<lparr>w_master := Some s'\<rparr>)"
proof -
  have "w = w\<lparr>w_master := Some s\<rparr>" using assms(2) by simp
  then show ?thesis
    using assms by (cases "en_master_fate en") (auto simp: register_attempt_def call_master_def register_call)
qed

lemma register_attempt_dom [frame_simps]: "dom (w_chunks (snd (register_attempt en ios a w))) = dom (w_chunks w)"
proof (cases "w_chunks w a")
  case (Some srv)
  obtain res w1 where "call_master en (RegisterChunkRequest (cs_id srv) (cs_addr srv) (last_seq_num (cs_store srv))) w = (res, w1)"
    by (cases "call_master en (RegisterChunkRequest (cs_id srv) (cs_addr srv) (last_seq_num (cs_store srv))) w")
  moreover from this have "w_chunks w1 = w_chunks w"
    using call_master_chunks [of en "RegisterChunkRequest (cs_id srv) (cs_addr srv) (last_seq_num (cs_store srv))" w] by simp
  ultimately show ?thesis using Some own_store_dom [of a _ w1] by (cases res) (simp_all add: register_attempt_def)
qed (simp add: register_attempt_def)

lemma register_attempt_again:
  assumes "en_master_fate en = Fine" "w_master w = Some s" "w_chunks w a = Some srv" "s' \<in> {s, registered en' srv s}"
  shows "register_attempt en ios a (w\<lparr>w_master := Some s'\<rparr>) = register_attempt en ios a w"
proof -
  have "call_master en (RegisterChunkRequest (cs_id srv) (cs_addr srv) (last_seq_num (cs_store srv))) (w\<lparr>w_master := Some s'\<rparr>)
      = call_master en (RegisterChunkRequest (cs_id srv) (cs_addr srv) (last_seq_num (cs_store srv))) w"
    using assms by (auto simp: call_master_def register_call [OF assms(2)]
        register_call [of "w\<lparr>w_master := Some s\<rparr>" s] register_call [of "w\<lparr>w_master := Some (registered en' srv s)\<rparr>" "registered en' srv s"])
  then show ?thesis using assms(3) by (simp add: register_attempt_def)
qed

text \<open>A registration that goes through: the answer is applied to the store.\<close>

lemma register_attempt_fine:
  assumes "en_master_fate en = Fine" "w_master w = Some s" "w_chunks w a = Some srv"
  shows "\<exists>w' ds. register_attempt en ios a w = (True, w')
    \<and> map snd ds = map wal_op (entries_after (last_seq_num (cs_store srv)) (ms_wal s))
    \<and> entries_at w' = (entries_at w)(a := st_entries (deliver store_apply ds (cs_store srv)))
    \<and> w_master w' = Some (registered en srv s)"
proof -
  let ?es = "map (\<lambda>e. \<lparr>r_key = w_key e, r_value = w_value e, r_seq = w_seq e, r_delete = w_delete e\<rparr>)
      (entries_after (last_seq_num (cs_store srv)) (ms_wal s))"
  let ?ds = "zip (map ios [0..<length ?es]) (map recovery_op ?es)"
  let ?w1 = "w\<lparr>w_master := Some (registered en srv s)\<rparr>"
  have w1: "call_master en (RegisterChunkRequest (cs_id srv) (cs_addr srv) (last_seq_num (cs_store srv))) w
      = (Got (RecoveryResponse ?es), ?w1)"
    using assms by (simp add: call_master_def register_call)
  have srv1: "w_chunks ?w1 a = Some srv" using assms(3) by simp
  let ?w' = "snd (own_store a (\<lambda>st. (None, recover_from ios (RecoveryResponse ?es) st)) ?w1)"
  have "register_attempt en ios a w = (True, ?w')"
    using w1 assms(3) by (simp add: register_attempt_def)
  moreover have "entries_at ?w' = (entries_at w)(a := st_entries (deliver store_apply ?ds (cs_store srv)))"
    using srv1 by (auto simp: fun_eq_iff entries_own_store recover_from_entries) (simp_all add: entries_at_def)
  moreover have "w_master ?w' = Some (registered en srv s)" by (simp add: frame_simps)
  moreover have "map snd ?ds = map wal_op (entries_after (last_seq_num (cs_store srv)) (ms_wal s))"
    by (simp add: map_snd_recovery del: map_map) (simp add: recovery_op_def wal_op_def)
  ultimately show ?thesis by blast
qed

text \<open>Whatever becomes of a registration, the master's counter and log stay, and so does an entry that is as new as
  anything the log holds for its key.\<close>

lemma register_attempt_keeps:
  assumes "w_master w = Some s"
  shows "\<exists>s'. w_master (snd (register_attempt en ios a w)) = Some s' \<and> ms_meta s' = ms_meta s \<and> ms_wal s' = ms_wal s"
    and "entries_at w b k = Some e \<Longrightarrow> \<forall>x \<in> set (wal_ops (ms_wal s)). op_key x = k \<longrightarrow> op_seq x \<le> e_seq e
      \<Longrightarrow> entries_at (snd (register_attempt en ios a w)) b k = Some e"
proof -
  have "(\<exists>s'. w_master (snd (register_attempt en ios a w)) = Some s' \<and> ms_meta s' = ms_meta s \<and> ms_wal s' = ms_wal s)
    \<and> (entries_at w b k = Some e \<and> (\<forall>x \<in> set (wal_ops (ms_wal s)). op_key x = k \<longrightarrow> op_seq x \<le> e_seq e)
      \<longrightarrow> entries_at (snd (register_attempt en ios a w)) b k = Some e)"
  proof (cases "w_chunks w a")
    case None
    then show ?thesis using assms by (simp add: register_attempt_def)
  next
    case (Some srv)
    have ent: "entries_at w a = st_entries (cs_store srv)" using Some by (simp add: entries_at_def)
    show ?thesis
    proof (cases "en_master_fate en = Fine")
      case True
      obtain w' ds where r: "register_attempt en ios a w = (True, w')"
        "map snd ds = map wal_op (entries_after (last_seq_num (cs_store srv)) (ms_wal s))"
        "entries_at w' = (entries_at w)(a := st_entries (deliver store_apply ds (cs_store srv)))"
        "w_master w' = Some (registered en srv s)"
        using register_attempt_fine [OF True assms Some] by blast
      have "set (map snd ds) \<subseteq> set (wal_ops (ms_wal s))" unfolding r(2) wal_ops_after by auto
      then show ?thesis using r(1,3,4) by (fastforce simp: store.view_deliver ent intro!: fold_lww_newest)
    next
      case False
      show ?thesis using register_attempt_failed [OF False assms Some, of ios] by (auto simp: entries_at_def)
    qed
  qed
  then show "\<exists>s'. w_master (snd (register_attempt en ios a w)) = Some s' \<and> ms_meta s' = ms_meta s \<and> ms_wal s' = ms_wal s"
    and "entries_at w b k = Some e \<Longrightarrow> \<forall>x \<in> set (wal_ops (ms_wal s)). op_key x = k \<longrightarrow> op_seq x \<le> e_seq e
      \<Longrightarrow> entries_at (snd (register_attempt en ios a w)) b k = Some e" by blast+
qed

text \<open>Registrations of several servers, one after the other.\<close>

definition register_all :: "(env \<times> (nat \<Rightarrow> io) \<times> addr) list \<Rightarrow> world \<Rightarrow> world" where
  "register_all rs w = fold (\<lambda>(en, ios, b) w. snd (register_attempt en ios b w)) rs w"

lemma register_all_keeps:
  assumes "w_master w = Some s"
  shows "\<exists>s'. w_master (register_all rs w) = Some s' \<and> ms_meta s' = ms_meta s \<and> ms_wal s' = ms_wal s"
    and "entries_at w b k = Some e \<Longrightarrow> \<forall>x \<in> set (wal_ops (ms_wal s)). op_key x = k \<longrightarrow> op_seq x \<le> e_seq e
      \<Longrightarrow> entries_at (register_all rs w) b k = Some e"
proof -
  have "(\<exists>s'. w_master (register_all rs w) = Some s' \<and> ms_meta s' = ms_meta s \<and> ms_wal s' = ms_wal s)
    \<and> (entries_at w b k = Some e \<and> (\<forall>x \<in> set (wal_ops (ms_wal s)). op_key x = k \<longrightarrow> op_seq x \<le> e_seq e)
      \<longrightarrow> entries_at (register_all rs w) b k = Some e)"
    using assms
  proof (induction rs arbitrary: w s)
    case (Cons r rs)
    obtain en ios a where r: "r = (en, ios, a)" by (cases r)
    let ?w = "snd (register_attempt en ios a w)"
    obtain s' where s': "w_master ?w = Some s'" "ms_meta s' = ms_meta s" "ms_wal s' = ms_wal s"
      using register_attempt_keeps(1) [OF Cons.prems] by blast
    have "register_all (r # rs) w = register_all rs ?w" by (simp add: register_all_def r)
    then show ?case
      using Cons.IH [OF s'(1)] register_attempt_keeps(2) [OF Cons.prems, of b k e en ios a] s'(2,3) by auto
  qed (simp add: register_all_def)
  then show "\<exists>s'. w_master (register_all rs w) = Some s' \<and> ms_meta s' = ms_meta s \<and> ms_wal s' = ms_wal s"
    and "entries_at w b k = Some e \<Longrightarrow> \<forall>x \<in> set (wal_ops (ms_wal s)). op_key x = k \<longrightarrow> op_seq x \<le> e_seq e
      \<Longrightarrow> entries_at (register_all rs w) b k = Some e" by blast+
qed

lemma start_master_state:
  assumes "start_master p mkdir_err ok f w = Inr w'"
  shows "\<exists>s. w_master w' = Some s \<and> md_seq (ms_meta s) = max_seq_num (ms_wal s) \<and> entries_at w' = entries_at w
    \<and> w_chunks w' = w_chunks w"
  using assms master_boot_state [of p mkdir_err ok f]
  by (auto simp: start_master_def entries_at_def current_seq_num_def fun_eq_iff split: sum.splits)

end
