(* ===== verification/System.thy ===== *)
theory System
  imports Replication
begin

text \<open>
  The properties of the composed system: writes and deletions through the primary, in a healthy
  system and under failures; the recovery of a server that was away; and the end of the
  registration loop.
\<close>

section \<open>A concrete system\<close>

text \<open>A master and three chunk servers, of which the first is the primary.\<close>

definition example_server :: "string \<Rightarrow> addr \<Rightarrow> cserver" where
  "example_server i a = \<lparr>cs_id = i, cs_addr = a, cs_store = empty_store\<rparr>"

definition example_master :: mserver where
  "example_master =
    \<lparr>ms_registry = register 0 ''c3'' ''c'' 0 (register 0 ''c2'' ''b'' 0 (register 0 ''c1'' ''a'' 0 new_registry)),
     ms_meta = new_metadata ''c1'', ms_wal = \<lparr>wal_entries = [], wal_file = None\<rparr>, ms_read_idx = 0\<rparr>"

definition example_world :: world where
  "example_world =
    \<lparr>w_master = Some example_master,
     w_chunks = [''a'' \<mapsto> example_server ''c1'' ''a'', ''b'' \<mapsto> example_server ''c2'' ''b'', ''c'' \<mapsto> example_server ''c3'' ''c'']\<rparr>"

definition example_env :: env where
  "example_env =
    \<lparr>en_now = second, en_ids = [''c2'', ''c1'', ''c3''], en_keys = (\<lambda>_. []), en_io = (\<lambda>_. IoOk), en_wal_io = IoOk,
     en_fate = (\<lambda>_. Fine), en_master_fate = Fine\<rparr>"

definition example_primary :: chunk_info where
  "example_primary = \<lparr>ci_id = ''c1'', ci_addr = ''a'', ci_last_beat = 0, ci_alive = True, ci_last_seq = 0\<rparr>"

lemma example_registry [simp]:
  "ms_registry example_master i =
    (if i = ''c3'' then Some \<lparr>ci_id = ''c3'', ci_addr = ''c'', ci_last_beat = 0, ci_alive = True, ci_last_seq = 0\<rparr>
     else if i = ''c2'' then Some \<lparr>ci_id = ''c2'', ci_addr = ''b'', ci_last_beat = 0, ci_alive = True, ci_last_seq = 0\<rparr>
     else if i = ''c1'' then Some \<lparr>ci_id = ''c1'', ci_addr = ''a'', ci_last_beat = 0, ci_alive = True, ci_last_seq = 0\<rparr>
     else None)"
  by (simp add: example_master_def register_def new_registry_def)

lemma example_dom: "dom (ms_registry example_master) = {''c1'', ''c2'', ''c3''}"
  by (auto simp: example_master_def register_def new_registry_def)

lemma example_fine: "all_fine example_env"
  by (simp add: all_fine_def example_env_def)

lemma example_knows: "master_knows example_env example_world example_master example_primary"
proof -
  have "reg_inv (ms_registry example_master)"
    unfolding reg_inv_def by (simp add: example_dom)
  moreover have "range_order (ms_registry example_master) (en_ids example_env)"
    unfolding range_order_def example_dom by (auto simp: example_env_def)
  moreover have "md_primary (ms_meta example_master) = ''c1''"
    by (simp add: example_master_def new_metadata_def)
  ultimately show ?thesis
    by (simp add: master_knows_def example_world_def example_primary_def)
qed

lemma example_alive: "alive_addrs example_master = {''a'', ''b'', ''c''}"
proof
  show "alive_addrs example_master \<subseteq> {''a'', ''b'', ''c''}"
    unfolding alive_addrs_def by (clarsimp split: if_splits)
  have "''a'' \<in> alive_addrs example_master" "''b'' \<in> alive_addrs example_master" "''c'' \<in> alive_addrs example_master"
    unfolding alive_addrs_def mem_Collect_eq
    by (rule exI [of _ "''c1''"], simp, rule exI [of _ "''c2''"], simp, rule exI [of _ "''c3''"], simp)
  then show "{''a'', ''b'', ''c''} \<subseteq> alive_addrs example_master" by simp
qed

lemma example_entries [simp]: "entries_at example_world b = Map.empty"
  by (simp add: entries_at_def example_world_def example_server_def empty_store_def)

lemma example_up: "alive_addrs example_master \<subseteq> dom (w_chunks example_world)"
  unfolding example_alive by (auto simp: example_world_def)

section \<open>Properties\<close>

text \<open>Claim C2. In a healthy system, a write or a deletion that reaches the primary is acknowledged, is
  applied by exactly the servers that count as alive, each according to the last-writer-wins
  rule, and touches nothing else.\<close>

theorem write_reaches_every_alive_server:
  assumes "all_fine en" "master_knows en w s c" "alive_addrs s \<subseteq> dom (w_chunks w)"
  shows "fst (chunk_at en (ci_addr c) (WriteRequest k v n) w) = Answer (WriteResponse True n [])
    \<and> fst (chunk_at en (ci_addr c) (DeleteRequest k n) w) = Answer (DeleteResponse True [])
    \<and> entries_at (snd (chunk_at en (ci_addr c) (WriteRequest k v n) w)) b =
        (if b \<in> alive_addrs s then lww (put_op k v n) (entries_at w b) else entries_at w b)
    \<and> entries_at (snd (chunk_at en (ci_addr c) (DeleteRequest k n) w)) b =
        (if b \<in> alive_addrs s then lww (delete_op k n) (entries_at w b) else entries_at w b)"
proof -
  have io: "en_io en (ci_addr c) = IoOk" using assms(1) by (simp add: all_fine_def)
  have "ci_addr c \<in> alive_addrs s" using assms(2) by (auto simp: alive_addrs_def master_knows_def)
  then obtain srv where "w_chunks w (ci_addr c) = Some srv" using assms(3) by auto
  then have "fst (own_store (ci_addr c) (put (en_io en (ci_addr c)) k v n) w) = None"
    "fst (own_store (ci_addr c) (delete (en_io en (ci_addr c)) k n) w) = None"
    by (simp_all add: own_store_same put_is_apply delete_is_apply error_apply io)
  then show ?thesis
    by (simp only: write_reply delete_reply option.case handle_write_after_op handle_delete_after_op
        after_op_fine [OF assms] simp_thms)
qed

theorem write_reaches_every_alive_server_witness:
  "entries_at (snd (chunk_at example_env ''a'' (WriteRequest ''bob/x'' [7] 1) example_world)) ''c''
    = [''bob/x'' \<mapsto> \<lparr>e_value = [7], e_seq = 1, e_deleted = False\<rparr>]"
proof -
  have "ci_addr example_primary = ''a''" by (simp add: example_primary_def)
  then show ?thesis
    using write_reaches_every_alive_server [OF example_fine example_knows example_up, of "''bob/x''" "[7]" 1 "''c''"]
    by (simp add: example_alive lww_def covers_def entry_of_def put_op_def)
qed

text \<open>Claim C3. Whatever happens to the disk, to the master and to the requests between the servers, the
  primary applies an operation it receives, acknowledges it unless its own disk refuses a new
  version, and leaves every other server with its old entries or with those entries and the
  operation: a server never gets anything else.\<close>

theorem write_outcome_under_failures:
  assumes "w_chunks w a = Some srv"
  shows "(fst (chunk_at en a (WriteRequest k v n) w) = Answer (WriteResponse True n [])
          \<longleftrightarrow> covers (entries_at w a) (put_op k v n) \<or> en_io en a = IoOk)
    \<and> entries_at (snd (chunk_at en a (WriteRequest k v n) w)) a = lww (put_op k v n) (entries_at w a)
    \<and> entries_at (snd (chunk_at en a (WriteRequest k v n) w)) b \<in> {entries_at w b, lww (put_op k v n) (entries_at w b)}"
proof -
  have up: "w_chunks w a \<noteq> None" using assms by simp
  have ent: "entries_at w a = st_entries (cs_store srv)" using assms by (simp add: entries_at_def)
  have "fst (own_store a (put (en_io en a) k v n) w) = None
      \<longleftrightarrow> covers (entries_at w a) (put_op k v n) \<or> en_io en a = IoOk"
    using assms by (cases "en_io en a") (auto simp: own_store_same put_is_apply error_apply ent)
  then have "fst (chunk_at en a (WriteRequest k v n) w) = Answer (WriteResponse True n [])
      \<longleftrightarrow> covers (entries_at w a) (put_op k v n) \<or> en_io en a = IoOk"
    unfolding write_reply by (auto split: option.split)
  then show ?thesis
    unfolding handle_write_after_op using after_op_any [OF up, of en "put_op k v n" b] by simp
qed

theorem write_outcome_under_failures_witness:
  "fst (chunk_at (example_env\<lparr>en_io := (\<lambda>_. IoFail ''full''), en_master_fate := NoDial\<rparr>) ''a''
      (WriteRequest ''bob/x'' [7] 1) example_world) \<noteq> Answer (WriteResponse True 1 [])"
  using write_outcome_under_failures [of example_world "''a''" "example_server ''c1'' ''a''"
      "example_env\<lparr>en_io := (\<lambda>_. IoFail ''full''), en_master_fate := NoDial\<rparr>" "''bob/x''" "[7]" 1]
  by (simp add: covers_def) (simp add: example_world_def)

text \<open>Claim C4. A server that registers and had applied every logged operation up to the number it
  reports catches up completely: afterwards its entries are its old ones with the whole log
  replayed over them, whatever its disk does meanwhile, and no other server is affected.\<close>

theorem recovery_catches_up:
  assumes "en_master_fate en = Fine" "w_master w = Some s" "w_chunks w a = Some srv"
    and "agree (set (wal_ops (ms_wal s)))"
    and "\<forall>x \<in> set (wal_ops (ms_wal s)). op_seq x \<le> last_seq_num (cs_store srv) \<longrightarrow> covers (entries_at w a) x"
  shows "\<exists>w'. register_attempt en ios a w = (True, w')
    \<and> entries_at w' a = fold lww (wal_ops (ms_wal s)) (entries_at w a)
    \<and> (\<forall>b. b \<noteq> a \<longrightarrow> entries_at w' b = entries_at w b)"
proof -
  have ent: "entries_at w a = st_entries (cs_store srv)" using assms(3) by (simp add: entries_at_def)
  obtain w' ds where r: "register_attempt en ios a w = (True, w')"
    "map snd ds = map wal_op (entries_after (last_seq_num (cs_store srv)) (ms_wal s))"
    "entries_at w' = (entries_at w)(a := st_entries (deliver store_apply ds (cs_store srv)))"
    using register_attempt_fine [OF assms(1-3)] by blast
  have "st_entries (deliver store_apply ds (cs_store srv))
      = fold lww (wal_ops (ms_wal s)) (st_entries (cs_store srv))"
    using assms(5) r(2) unfolding ent by (intro chunk_recovery.recover_replays_log [OF assms(4)])
  with r ent show ?thesis by simp
qed

definition log_of :: "wal_entry list \<Rightarrow> wal" where
  "log_of es = \<lparr>wal_entries = es, wal_file = Some (Json es)\<rparr>"

theorem recovery_catches_up_witness:
  "\<exists>w'. register_attempt example_env (\<lambda>_. IoOk) ''b'' (example_world\<lparr>w_master := Some (example_master\<lparr>ms_wal :=
      log_of [\<lparr>w_key = ''bob/x'', w_value = [7], w_seq = 1, w_delete = False\<rparr>]\<rparr>)\<rparr>) = (True, w')
    \<and> entries_at w' ''b'' ''bob/x'' = Some \<lparr>e_value = [7], e_seq = 1, e_deleted = False\<rparr>"
  using recovery_catches_up [of example_env "example_world\<lparr>w_master := Some (example_master\<lparr>ms_wal :=
      log_of [\<lparr>w_key = ''bob/x'', w_value = [7], w_seq = 1, w_delete = False\<rparr>]\<rparr>)\<rparr>"
      "example_master\<lparr>ms_wal := log_of [\<lparr>w_key = ''bob/x'', w_value = [7], w_seq = 1, w_delete = False\<rparr>]\<rparr>"
      "''b''" "example_server ''c2'' ''b''" "\<lambda>_. IoOk"]
  by (auto simp: example_env_def example_world_def example_server_def empty_store_def entries_at_def
      log_of_def wal_ops_def wal_op_def agree_def last_seq_num_def lww_def covers_def entry_of_def)

text \<open>Claim C5. A server reports only its highest number. When it missed an operation but has seen one with
  a higher number, for any key, registering with the master does not bring the missed operation
  back, although it is in the log: the entry for its key stays as it was.\<close>

theorem recovery_skips_gaps:
  assumes "en_master_fate en = Fine" "w_master w = Some s" "w_chunks w a = Some srv"
    and "x \<in> set (wal_ops (ms_wal s))" "op_seq x \<le> last_seq_num (cs_store srv)"
    and newest: "\<forall>y \<in> set (wal_ops (ms_wal s)). op_key y = op_key x \<longrightarrow> op_seq y \<le> op_seq x"
    and missed: "\<not> covers (entries_at w a) x"
  shows "\<exists>w'. register_attempt en ios a w = (True, w')
    \<and> entries_at w' a (op_key x) = entries_at w a (op_key x) \<and> \<not> covers (entries_at w' a) x"
proof -
  have ent: "entries_at w a = st_entries (cs_store srv)" using assms(3) by (simp add: entries_at_def)
  obtain w' ds where r: "register_attempt en ios a w = (True, w')"
    "map snd ds = map wal_op (entries_after (last_seq_num (cs_store srv)) (ms_wal s))"
    "entries_at w' = (entries_at w)(a := st_entries (deliver store_apply ds (cs_store srv)))"
    using register_attempt_fine [OF assms(1-3)] by blast
  have "\<forall>y \<in> set (map snd ds). op_key y \<noteq> op_key x"
    using assms(5) newest unfolding r(2) wal_ops_after by auto
  then have "fold lww (map snd ds) m (op_key x) = m (op_key x)" for m
    by (rule fold_lww_other)
  then have "entries_at w' a (op_key x) = entries_at w a (op_key x)"
    by (simp add: r(3) ent store.view_deliver)
  then show ?thesis using r(1) missed by (simp add: covers_def)
qed

theorem recovery_skips_gaps_witness:
  "\<exists>w'. register_attempt example_env (\<lambda>_. IoOk) ''b''
      (example_world\<lparr>w_master := Some (example_master\<lparr>ms_wal := log_of
          [\<lparr>w_key = ''bob/x'', w_value = [7], w_seq = 1, w_delete = False\<rparr>,
           \<lparr>w_key = ''bob/y'', w_value = [8], w_seq = 3, w_delete = False\<rparr>]\<rparr>),
        w_chunks := [''b'' \<mapsto> \<lparr>cs_id = ''c2'', cs_addr = ''b'',
          cs_store = store_apply IoOk (put_op ''bob/y'' [8] 3) empty_store\<rparr>]\<rparr>) = (True, w')
    \<and> entries_at w' ''b'' ''bob/x'' = None"
proof -
  let ?wal = "log_of [\<lparr>w_key = ''bob/x'', w_value = [7], w_seq = 1, w_delete = False\<rparr>,
           \<lparr>w_key = ''bob/y'', w_value = [8], w_seq = 3, w_delete = False\<rparr>]"
  let ?srv = "\<lparr>cs_id = ''c2'', cs_addr = ''b'', cs_store = store_apply IoOk (put_op ''bob/y'' [8] 3) empty_store\<rparr>"
  let ?w = "example_world\<lparr>w_master := Some (example_master\<lparr>ms_wal := ?wal\<rparr>), w_chunks := [''b'' \<mapsto> ?srv]\<rparr>"
  have "entries_at ?w ''b'' = [''bob/y'' \<mapsto> entry_of (put_op ''bob/y'' [8] 3)]"
    by (simp add: entries_at_def store.view_apply) (simp add: empty_store_def lww_def covers_def)
  moreover have "last_seq_num (cs_store ?srv) = 3"
    by (simp add: last_seq_num_def store_apply_def last_apply empty_store_def covers_def)
  ultimately show ?thesis
    using recovery_skips_gaps [of example_env ?w "example_master\<lparr>ms_wal := ?wal\<rparr>" "''b''" ?srv
        "put_op ''bob/x'' [7] 1" "\<lambda>_. IoOk"]
    by (simp add: example_env_def log_of_def wal_ops_def wal_op_def put_op_def covers_def) blast
qed

text \<open>Claim C19. A starting server tries to register until an attempt is answered. The loop then returns, and the attempts that
  failed before leave no trace: the outcome is that of the answered attempt alone, with the server registered as alive
  and the log entries above its number applied. As long as the master is down it goes on without changing anything.\<close>

theorem registration_ends_when_answered:
  assumes "w_master w = Some s" "w_chunks w a = Some srv"
    and "\<forall>(en', ios') \<in> set failed. en_master_fate en' \<noteq> Fine" "en_master_fate en = Fine"
  shows "\<exists>w' ds. register_with_master (failed @ (en, ios) # later) a w = (True, w') \<and> register_attempt en ios a w = (True, w')
    \<and> w_master w' = Some (s\<lparr>ms_registry := (ms_registry s)(cs_id srv \<mapsto> \<lparr>ci_id = cs_id srv, ci_addr = cs_addr srv,
         ci_last_beat = en_now en, ci_alive = True, ci_last_seq = last_seq_num (cs_store srv)\<rparr>)\<rparr>)
    \<and> map snd ds = map wal_op (entries_after (last_seq_num (cs_store srv)) (ms_wal s))
    \<and> entries_at w' = (entries_at w)(a := st_entries (deliver store_apply ds (cs_store srv)))
    \<and> register_with_master attempts a (stop_master w) = (False, stop_master w)"
proof -
  have loop: "register_with_master (failed @ (en, ios) # later) a w = register_attempt en ios a w"
    using assms(1-3)
  proof (induction failed arbitrary: w s)
    case Nil
    obtain w' where "register_attempt en ios a w = (True, w')"
      using register_attempt_fine [OF assms(4) Nil(1,2), of ios] by blast
    then show ?case by simp
  next
    case (Cons x failed)
    obtain en' ios' where x: "x = (en', ios')" by (cases x)
    then have "en_master_fate en' \<noteq> Fine" using Cons.prems(3) by simp
    then obtain s' where s': "s' \<in> {s, registered en' srv s}" "register_attempt en' ios' a w = (False, w\<lparr>w_master := Some s'\<rparr>)"
      using register_attempt_failed [OF _ Cons.prems(1,2)] by blast
    have "register_with_master (failed @ (en, ios) # later) a (w\<lparr>w_master := Some s'\<rparr>) = register_attempt en ios a (w\<lparr>w_master := Some s'\<rparr>)"
      using Cons.prems by (intro Cons.IH) auto
    also have "\<dots> = register_attempt en ios a w" by (rule register_attempt_again [OF assms(4) Cons.prems(1,2) s'(1)])
    finally show ?case using s'(2) by (simp add: x)
  qed
  have "register_with_master attempts a (stop_master w) = (False, stop_master w)"
    by (induction attempts) (auto simp: register_attempt_def call_master_def stop_master_def split: option.split)
  then show ?thesis
    unfolding loop using register_attempt_fine [OF assms(4,1,2), of ios, unfolded registered_def register_def] by blast
qed

theorem registration_ends_when_answered_witness:
  "fst (register_with_master [(example_env\<lparr>en_master_fate := NoDial\<rparr>, \<lambda>_. IoOk), (example_env\<lparr>en_master_fate := ReplyLost\<rparr>, \<lambda>_. IoOk),
      (example_env, \<lambda>_. IoOk)] ''b'' example_world)"
  using registration_ends_when_answered [of example_world example_master "''b''" "example_server ''c2'' ''b''"
      "[(example_env\<lparr>en_master_fate := NoDial\<rparr>, \<lambda>_. IoOk), (example_env\<lparr>en_master_fate := ReplyLost\<rparr>, \<lambda>_. IoOk)]"
      example_env "\<lambda>_. IoOk" "[]" "[]"]
  by (auto simp: example_world_def example_env_def)

end
