(* ===== verification/Protocol.thy ===== *)
theory Protocol
  imports System "HOL-Library.Multiset"
begin

text \<open>
  The system as concurrent activities. Every request a client or a server has under way is a
  \<open>task\<close>; one step of the system is one access to a store under its lock, or one request to the
  master, on behalf of one task. Tasks interleave freely, and at any moment a task may be lost with
  the process or the connection it lives on. The handlers of \<open>Chunk_Server\<close> and the client's
  operations are particular runs of these steps.
\<close>

section \<open>Tasks and steps\<close>

datatype task =
    Wanting key bytes bool
  | Sending addr op
  | Stored op
  | Replicating op "addr list"
  | Notifying op
  | Recovering addr "op list"

record proto =
  pr_world :: world
  pr_tasks :: "task multiset"

abbreviation state :: "world \<Rightarrow> task multiset \<Rightarrow> proto" where
  "state w T \<equiv> \<lparr>pr_world = w, pr_tasks = T\<rparr>"

definition op_of :: "key \<Rightarrow> bytes \<Rightarrow> bool \<Rightarrow> uint64 \<Rightarrow> op" where
  "op_of k v d n = (if d then delete_op k n else put_op k v n)"

text \<open>The counter has not reached its last value.\<close>

definition room :: "world \<Rightarrow> bool" where
  "room w \<longleftrightarrow> (case w_master w of None \<Rightarrow> True | Some m \<Rightarrow> unat (md_seq (ms_meta m)) + 1 < 2 ^ 64)"

inductive proto_step :: "proto \<Rightarrow> proto \<Rightarrow> bool" where
  want: "proto_step (state w T) (state w (add_mset (Wanting k v d) T))"
| ask: "call_master en (GetPrimaryRequest k) w = (Got (GetPrimaryResponse p rs n), w') \<Longrightarrow> p \<noteq> [] \<Longrightarrow> room w
    \<Longrightarrow> proto_step (state w (add_mset (Wanting k v d) T)) (state w' (add_mset (Sending p (op_of k v d n)) T))"
| ask_fails: "call_master en (GetPrimaryRequest k) w = (r, w') \<Longrightarrow> room w
    \<Longrightarrow> proto_step (state w (add_mset (Wanting k v d) T)) (state w' T)"
| store: "own_store a (store_apply_result io x) w = (None, w') \<Longrightarrow> w_chunks w a \<noteq> None
    \<Longrightarrow> proto_step (state w (add_mset (Sending a x) T)) (state w' (add_mset (Stored x) T))"
| store_fails: "own_store a (store_apply_result io x) w = (Some err, w')
    \<Longrightarrow> proto_step (state w (add_mset (Sending a x) T)) (state w' T)"
| replicas: "get_replica_addrs (call_master en) (op_key x) w = (rs, w') \<Longrightarrow> room w
    \<Longrightarrow> proto_step (state w (add_mset (Stored x) T)) (state w' (add_mset (Replicating x rs) T))"
| replicate: "replicate_to (call_leaf en) b (op_key x) (op_value x) (op_seq x) (op_delete x) w = (r, w')
    \<Longrightarrow> proto_step (state w (add_mset (Replicating x (b # rs)) T)) (state w' (add_mset (Replicating x rs) T))"
| reply: "proto_step (state w (add_mset (Replicating x []) T)) (state w (add_mset (Notifying x) T))"
| notify: "call_master en (WALNotify (op_key x) (op_value x) (op_seq x) (op_delete x)) w = (r, w')
    \<Longrightarrow> proto_step (state w (add_mset (Notifying x) T)) (state w' T)"
| register: "w_chunks w a = Some srv
    \<Longrightarrow> call_master en (RegisterChunkRequest (cs_id srv) (cs_addr srv) (last_seq_num (cs_store srv))) w
          = (Got (RecoveryResponse es), w')
    \<Longrightarrow> proto_step (state w T) (state w' (add_mset (Recovering a (map recovery_op es)) T))"
| register_fails: "call_master en (RegisterChunkRequest i a n) w = (r, w') \<Longrightarrow> proto_step (state w T) (state w' T)"
| recover: "proto_step (state w (add_mset (Recovering a (x # xs)) T))
      (state (snd (own_store a (store_apply_result io x) w)) (add_mset (Recovering a xs) T))"
| beat: "proto_step (state w T) (state (send_heartbeat en a w) T)"
| monitor: "proto_step (state w T) (state (monitor en w) T)"
| read: "m \<in> {GetChunkRequest k, ListKeysRequest pre} \<Longrightarrow> call_master en m w = (r, w')
    \<Longrightarrow> proto_step (state w T) (state w' T)"
| lose: "proto_step (state w (add_mset t T)) (state w T)"

text \<open>Processes that fail: a chunk server that restarts from its files, or that stops, and the master that stops.\<close>

inductive fault_step :: "proto \<Rightarrow> proto \<Rightarrow> bool" where
  restart_chunk: "w_chunks w a = Some srv
    \<Longrightarrow> start_chunk (cs_id srv) a None rd listing (st_files (cs_store srv)) (stop_chunk a w) = Inr w'
    \<Longrightarrow> fault_step (state w T) (state w' T)"
| chunk_stops: "fault_step (state w T) (state (stop_chunk a w) T)"
| master_stops: "fault_step (state w T) (state (stop_master w) T)"

inductive_cases proto_stepE: "proto_step s s'"
inductive_cases fault_stepE: "fault_step s s'"

definition any_step :: "proto \<Rightarrow> proto \<Rightarrow> bool" where
  "any_step s s' \<longleftrightarrow> proto_step s s' \<or> fault_step s s'"

text \<open>The system as it is first started: empty stores, an empty log, nothing under way.\<close>

definition fresh :: "proto \<Rightarrow> bool" where
  "fresh s \<longleftrightarrow> pr_tasks s = {#}
    \<and> (\<forall>a srv. w_chunks (pr_world s) a = Some srv \<longrightarrow> cs_store srv = empty_store)
    \<and> (\<forall>m. w_master (pr_world s) = Some m \<longrightarrow> wal_entries (ms_wal m) = [] \<and> md_seq (ms_meta m) = 0)"

section \<open>The invariant\<close>

text \<open>
  A history \<open>G\<close> says which operation a number was used for. Everything in the system comes from
  the history: the tasks, the log, and the entries in memory and on disk.
\<close>

type_synonym history = "uint64 \<rightharpoonup> op"

definition logged :: "history \<Rightarrow> op \<Rightarrow> bool" where
  "logged G x \<longleftrightarrow> G (op_seq x) = Some x"

definition comes_from :: "history \<Rightarrow> entry \<Rightarrow> bool" where
  "comes_from G e \<longleftrightarrow> (\<exists>x. G (e_seq e) = Some x \<and> e = entry_of x)"

definition store_from :: "history \<Rightarrow> store \<Rightarrow> bool" where
  "store_from G st \<longleftrightarrow> (\<forall>k e. st_entries st k = Some e \<longrightarrow> comes_from G e)
     \<and> (\<forall>f e. st_files st f = Some (Json e) \<longrightarrow> comes_from G e)"

fun task_ops :: "task \<Rightarrow> op set" where
  "task_ops (Wanting k v d) = {}"
| "task_ops (Sending a x) = {x}"
| "task_ops (Stored x) = {x}"
| "task_ops (Replicating x rs) = {x}"
| "task_ops (Notifying x) = {x}"
| "task_ops (Recovering a xs) = set xs"

definition chunks_from :: "history \<Rightarrow> world \<Rightarrow> bool" where
  "chunks_from G w \<longleftrightarrow> (\<forall>a srv. w_chunks w a = Some srv \<longrightarrow> store_from G (cs_store srv))"

definition master_from :: "history \<Rightarrow> world \<Rightarrow> bool" where
  "master_from G w \<longleftrightarrow> (\<forall>m. w_master w = Some m \<longrightarrow>
     (\<forall>x \<in> set (wal_ops (ms_wal m)). logged G x) \<and> (\<forall>n \<in> dom G. n \<le> md_seq (ms_meta m)))"

definition tasks_from :: "history \<Rightarrow> task multiset \<Rightarrow> bool" where
  "tasks_from G T \<longleftrightarrow> (\<forall>t \<in># T. \<forall>x \<in> task_ops t. logged G x)"

definition proto_inv :: "history \<Rightarrow> proto \<Rightarrow> bool" where
  "proto_inv G s \<longleftrightarrow> chunks_from G (pr_world s) \<and> master_from G (pr_world s) \<and> tasks_from G (pr_tasks s)"

lemma tasks_from_add [simp]:
  "tasks_from G (add_mset t T) \<longleftrightarrow> (\<forall>x \<in> task_ops t. logged G x) \<and> tasks_from G T"
  by (simp add: tasks_from_def)

lemma logged_mono: "logged G x \<Longrightarrow> G \<subseteq>\<^sub>m G' \<Longrightarrow> logged G' x"
  unfolding logged_def map_le_def by (metis domI)

lemma comes_from_mono: "comes_from G e \<Longrightarrow> G \<subseteq>\<^sub>m G' \<Longrightarrow> comes_from G' e"
  unfolding comes_from_def map_le_def by (metis domI)

lemma chunks_from_mono: "chunks_from G w \<Longrightarrow> G \<subseteq>\<^sub>m G' \<Longrightarrow> chunks_from G' w"
  unfolding chunks_from_def store_from_def using comes_from_mono by blast

lemma tasks_from_mono: "tasks_from G T \<Longrightarrow> G \<subseteq>\<^sub>m G' \<Longrightarrow> tasks_from G' T"
  unfolding tasks_from_def using logged_mono by blast

lemma comes_from_logged: "logged G x \<Longrightarrow> comes_from G (entry_of x)"
  by (auto simp: logged_def comes_from_def)

subsection \<open>Stores\<close>

lemma store_from_apply:
  assumes "store_from G st" "logged G x"
  shows "store_from G (snd (store_apply_result io x st))"
proof (cases "covers (st_entries st) x")
  case True
  then show ?thesis using assms by (simp add: store_apply_result_eq)
next
  case False
  then show ?thesis
    using assms comes_from_logged [OF assms(2)]
    by (cases io) (auto simp: store_apply_result_eq store_from_def split: if_splits)
qed

lemma chunks_from_own_store:
  assumes "chunks_from G w" "logged G x"
  shows "chunks_from G (snd (own_store a (store_apply_result io x) w))"
proof (cases "w_chunks w a")
  case None
  then show ?thesis using assms by (simp add: own_store_def)
next
  case (Some srv)
  then have "store_from G (cs_store srv)" using assms(1) by (simp add: chunks_from_def)
  then have "store_from G (snd (store_apply_result io x (cs_store srv)))"
    by (rule store_from_apply [OF _ assms(2)])
  then show ?thesis using assms(1) Some by (auto simp: own_store_same chunks_from_def)
qed

lemma load_from_disk_from:
  "load_from_disk rd fs st = Inr st' \<Longrightarrow> store_from G st \<Longrightarrow> store_from G st'"
proof (induction fs arbitrary: st)
  case (Cons f fs)
  obtain e where e: "rd f = None" "st_files st f = Some (Json e)"
    using Cons.prems(1) by (auto split: option.splits content.splits)
  define st1 where "st1 = st\<lparr>st_entries := (st_entries st)(key_from_filename f \<mapsto> e)\<rparr>"
  define st2 where "st2 = (if e_seq e > st_last st1 then st1\<lparr>st_last := e_seq e\<rparr> else st1)"
  have "comes_from G e" using Cons.prems(2) e by (simp add: store_from_def)
  then have "store_from G st2"
    using Cons.prems(2) by (simp add: store_from_def st1_def st2_def)
  moreover have "load_from_disk rd fs st2 = Inr st'"
    using Cons.prems(1) e unfolding st1_def st2_def by (simp add: Let_def)
  ultimately show ?case by (rule Cons.IH [rotated])
qed simp

lemma new_store_from:
  assumes "new_store err rd listing files = Inr st" "\<forall>f e. files f = Some (Json e) \<longrightarrow> comes_from G e"
  shows "store_from G st"
proof -
  have "load_from_disk rd (filter has_json_ext listing) \<lparr>st_files = files, st_entries = Map.empty, st_last = 0\<rparr> = Inr st"
    using assms(1) by (simp add: new_store_def split: option.splits)
  then show ?thesis
    by (rule load_from_disk_from) (use assms(2) in \<open>simp add: store_from_def\<close>)
qed

lemma chunks_from_restart:
  assumes "chunks_from G w" "w_chunks w a = Some srv"
    and "start_chunk i a err rd listing (st_files (cs_store srv)) (stop_chunk a w) = Inr w'"
  shows "chunks_from G w' \<and> w_master w' = w_master w"
proof -
  have "store_from G (cs_store srv)" using assms(1,2) by (simp add: chunks_from_def)
  then have files: "\<forall>f e. st_files (cs_store srv) f = Some (Json e) \<longrightarrow> comes_from G e"
    by (simp add: store_from_def)
  obtain st where st: "new_store err rd listing (st_files (cs_store srv)) = Inr st"
    and w': "w' = (stop_chunk a w)\<lparr>w_chunks := (w_chunks (stop_chunk a w))(a \<mapsto> \<lparr>cs_id = i, cs_addr = a, cs_store = st\<rparr>)\<rparr>"
    using assms(3) by (auto simp: start_chunk_def split: sum.splits)
  show ?thesis
    using new_store_from [OF st files] assms(1) by (auto simp: w' chunks_from_def stop_chunk_def)
qed

subsection \<open>The master\<close>

text \<open>What a request can do to the counter and to the log.\<close>

lemma master_conn_meta:
  "ms_meta (snd (master_conn now ids io ask m s)) = ms_meta s
    \<or> (\<exists>k. m = GetPrimaryRequest k) \<and> ms_meta (snd (master_conn now ids io ask m s)) = snd (next_seq_num (ms_meta s))"
proof (cases m)
  case (GetPrimaryRequest k)
  then show ?thesis
    by (auto simp: handle_get_primary_def next_seq_num_def Let_def split: prod.splits)
qed (simp_all add: frame_simps handle_wal_notify_def)

lemma master_conn_wal:
  "ms_wal (snd (master_conn now ids io ask m s)) = ms_wal s
    \<or> (\<exists>k v n d. m = WALNotify k v n d \<and> ms_wal (snd (master_conn now ids io ask m s)) = wal_append io k v n d (ms_wal s))"
  by (cases m) (simp_all add: frame_simps handle_wal_notify_def)

lemma call_master_effect:
  assumes "w_master (snd (call_master en m w)) = Some s'"
  obtains s where "w_master w = Some s" and
    "ms_meta s' = ms_meta s \<or> (\<exists>k. m = GetPrimaryRequest k) \<and> ms_meta s' = snd (next_seq_num (ms_meta s))" and
    "ms_wal s' = ms_wal s \<or> (\<exists>k v n d io. m = WALNotify k v n d \<and> ms_wal s' = wal_append io k v n d (ms_wal s))"
proof (cases "w_master (snd (call_master en m w)) = w_master w")
  case True
  then show ?thesis using assms by (intro that [of s']) simp_all
next
  case False
  then have eq: "snd (call_master en m w) = snd (master_at en m w)"
    using call_master_state [of en m w] by auto
  with False obtain s where s: "w_master w = Some s"
    by (cases "w_master w") (auto simp: call_master_def)
  let ?c = "master_conn (en_now en) (en_ids en) (en_wal_io en) (\<lambda>a m. fst (call_leaf en a m w)) m s"
  have "s' = snd ?c"
    using assms s unfolding eq by (auto simp: master_at_def split: prod.splits outcome.splits)
  then show ?thesis
    using master_conn_meta [of "en_now en" "en_ids en" "en_wal_io en" "\<lambda>a m. fst (call_leaf en a m w)" m s]
      master_conn_wal [of "en_now en" "en_ids en" "en_wal_io en" "\<lambda>a m. fst (call_leaf en a m w)" m s]
    by (intro that [OF s]) auto
qed

lemma counter_step: "room w \<Longrightarrow> w_master w = Some s \<Longrightarrow> md_seq (ms_meta s) < md_seq (ms_meta s) + 1"
  using unat_Suc_word [of "md_seq (ms_meta s)"] by (simp add: room_def word_less_nat_alt)

text \<open>A request that is not a notification keeps the history of the master.\<close>

lemma master_from_call:
  assumes "master_from G w" "\<forall>k. m = GetPrimaryRequest k \<longrightarrow> room w"
    and "\<forall>k v n d. m = WALNotify k v n d \<longrightarrow> logged G (replicate_op k v n d)"
  shows "master_from G (snd (call_master en m w))"
  unfolding master_from_def
proof (intro allI impI)
  fix s' assume "w_master (snd (call_master en m w)) = Some s'"
  then obtain s where s: "w_master w = Some s" and
    meta: "ms_meta s' = ms_meta s \<or> (\<exists>k. m = GetPrimaryRequest k) \<and> ms_meta s' = snd (next_seq_num (ms_meta s))" and
    wal: "ms_wal s' = ms_wal s \<or> (\<exists>k v n d io. m = WALNotify k v n d \<and> ms_wal s' = wal_append io k v n d (ms_wal s))"
    by (rule call_master_effect)
  have old: "\<forall>x \<in> set (wal_ops (ms_wal s)). logged G x" "\<forall>n \<in> dom G. n \<le> md_seq (ms_meta s)"
    using assms(1) s by (auto simp: master_from_def)
  have "md_seq (ms_meta s) \<le> md_seq (ms_meta s')"
    using meta assms(2) counter_step [OF _ s] by (auto dest: less_imp_le)
  moreover have "\<forall>x \<in> set (wal_ops (ms_wal s')). logged G x"
    using wal old(1) assms(3) by (auto simp: wal_ops_append replicate_op_def)
  ultimately show "(\<forall>x \<in> set (wal_ops (ms_wal s')). logged G x) \<and> (\<forall>n \<in> dom G. n \<le> md_seq (ms_meta s'))"
    using old(2) by (blast intro: order_trans)
qed

text \<open>The number in an answer is the next one of the counter.\<close>

lemma get_primary_number:
  assumes "call_master en (GetPrimaryRequest k) w = (Got (GetPrimaryResponse p rs n), w')" "p \<noteq> []"
  obtains s s' where "w_master w = Some s" "w_master w' = Some s'"
    "n = md_seq (ms_meta s) + 1" "md_seq (ms_meta s') = n"
proof -
  obtain s where s: "w_master w = Some s"
    using assms(1) by (cases "w_master w") (auto simp: call_master_def)
  then have "rpc (en_master_fate en) (master_at en (GetPrimaryRequest k)) w = (Got (GetPrimaryResponse p rs n), w')"
    using assms(1) by (simp add: call_master_def)
  then have at: "fst (master_at en (GetPrimaryRequest k) w) = Answer (GetPrimaryResponse p rs n)"
    "w' = snd (master_at en (GetPrimaryRequest k) w)"
    using rpc_Got [of "en_master_fate en" "master_at en (GetPrimaryRequest k)" w] by auto
  then obtain s' where h: "handle_get_primary (en_ids en) s = (Answer (GetPrimaryResponse p rs n), s')"
    and "w' = w\<lparr>w_master := Some s'\<rparr>"
    using s by (auto simp: master_at_def split: prod.splits outcome.splits)
  moreover have "n = md_seq (ms_meta s) + 1 \<and> md_seq (ms_meta s') = n"
    using h assms(2) by (auto simp: handle_get_primary_def next_seq_num_def Let_def split: prod.splits if_splits)
  ultimately show ?thesis using s by (intro that [of s s']) auto
qed

section \<open>Every step keeps the invariant\<close>

lemma op_of_seq [simp]: "op_seq (op_of k v d n) = n"
  by (simp add: op_of_def)

lemma chunks_from_call_leaf:
  assumes "chunks_from G w" "logged G x"
  shows "chunks_from G (snd (call_leaf en b (ReplicateRequest (op_key x) (op_value x) (op_seq x) (op_delete x)) w))"
proof -
  have "chunks_from G (snd (own_store b (\<lambda>st. (None, store_apply io x st)) w))" for io
  proof -
    have "snd (own_store b (\<lambda>st. (None, store_apply io x st)) w) = snd (own_store b (store_apply_result io x) w)"
      by (simp add: own_store_def store_apply_def split: option.split prod.split)
    then show ?thesis using chunks_from_own_store [OF assms] by simp
  qed
  then show ?thesis
    using call_leaf_replicate [of en b "op_key x" "op_value x" "op_seq x" "op_delete x" w] assms(1) by auto
qed

lemma master_from_same: "w_master w' = w_master w \<Longrightarrow> master_from G w' = master_from G w"
  by (simp add: master_from_def)

lemma chunks_from_same: "w_chunks w' = w_chunks w \<Longrightarrow> chunks_from G w' = chunks_from G w"
  by (simp add: chunks_from_def)

lemma recovery_answer:
  assumes "call_master en (RegisterChunkRequest i a n) w = (Got (RecoveryResponse es), w')"
  obtains s where "w_master w = Some s" "map recovery_op es = filter (\<lambda>x. n < op_seq x) (wal_ops (ms_wal s))"
proof -
  obtain s where s: "w_master w = Some s"
    using assms by (cases "w_master w") (auto simp: call_master_def)
  then have "fst (master_at en (RegisterChunkRequest i a n) w) = Answer (RecoveryResponse es)"
    using assms rpc_Got [of "en_master_fate en" "master_at en (RegisterChunkRequest i a n)" w]
    by (simp add: call_master_def)
  then have "map recovery_op es = filter (\<lambda>x. n < op_seq x) (wal_ops (ms_wal s))"
    using s recovery_ops_register [of n "ms_wal s"]
    by (auto simp: master_at_def handle_register_def Let_def split: prod.splits outcome.splits)
  with s show ?thesis by (rule that)
qed

lemma proto_inv_ask:
  assumes "call_master en (GetPrimaryRequest k) w = (Got (GetPrimaryResponse p rs n), w')" "p \<noteq> []" "room w"
    and "proto_inv G (state w (add_mset (Wanting k v d) T))"
  shows "\<exists>G'. G \<subseteq>\<^sub>m G' \<and> proto_inv G' (state w' (add_mset (Sending p (op_of k v d n)) T))"
proof -
  obtain s s' where s: "w_master w = Some s" "w_master w' = Some s'"
    "n = md_seq (ms_meta s) + 1" "md_seq (ms_meta s') = n"
    by (rule get_primary_number [OF assms(1,2)])
  have inv: "chunks_from G w" "master_from G w" "tasks_from G T"
    using assms(4) by (auto simp: proto_inv_def)
  have "\<forall>m \<in> dom G. m \<le> md_seq (ms_meta s)" using inv(2) s(1) by (simp add: master_from_def)
  then have "\<forall>m \<in> dom G. m < n"
    using counter_step [OF assms(3) s(1)] unfolding s(3) by (blast intro: le_less_trans)
  then have "G n = None" by (metis domIff order_less_irrefl)
  let ?G = "G(n \<mapsto> op_of k v d n)"
  have ext: "G \<subseteq>\<^sub>m ?G" using \<open>G n = None\<close> by (auto simp: map_le_def)
  have "master_from G w'"
    using master_from_call [OF inv(2), of "GetPrimaryRequest k" en] assms(1,3) by simp
  then have "(\<forall>x \<in> set (wal_ops (ms_wal s')). logged G x) \<and> (\<forall>m \<in> dom G. m \<le> n)"
    using s(2,4) by (simp add: master_from_def)
  then have "(\<forall>x \<in> set (wal_ops (ms_wal s')). logged ?G x) \<and> (\<forall>m \<in> dom ?G. m \<le> n)"
    using logged_mono [OF _ ext] by (simp add: dom_fun_upd)
  then have "master_from ?G w'"
    using s(2,4) by (simp add: master_from_def)
  moreover have ch: "w_chunks w' = w_chunks w"
    using call_master_chunks [of en "GetPrimaryRequest k" w] assms(1) by simp
  have "chunks_from ?G w'"
    unfolding chunks_from_same [OF ch] by (rule chunks_from_mono [OF inv(1) ext])
  moreover have "logged ?G (op_of k v d n)" by (simp add: logged_def)
  ultimately show ?thesis
    using ext tasks_from_mono [OF inv(3) ext] by (intro exI [of _ ?G]) (simp add: proto_inv_def)
qed

lemma replicate_op_same: "replicate_op (op_key x) (op_value x) (op_seq x) (op_delete x) = x"
  by simp

lemma proto_inv_call:
  assumes "call_master en m w = (r, w')" "chunks_from G w" "master_from G w"
    and "\<forall>k. m = GetPrimaryRequest k \<longrightarrow> room w"
    and "\<forall>k v n d. m = WALNotify k v n d \<longrightarrow> logged G (replicate_op k v n d)"
  shows "chunks_from G w' \<and> master_from G w'"
proof -
  have w': "w' = snd (call_master en m w)" using assms(1) by simp
  show ?thesis
    unfolding w' using master_from_call [OF assms(3-5), of en] assms(2)
    by (simp only: chunks_from_same [OF call_master_chunks] simp_thms)
qed

lemma send_heartbeat_inv:
  assumes "chunks_from G w" "master_from G w"
  shows "chunks_from G (send_heartbeat en a w) \<and> master_from G (send_heartbeat en a w)"
proof (cases "w_chunks w a")
  case (Some srv)
  show ?thesis
    using proto_inv_call [of en "HeartbeatMsg (cs_id srv) (cs_addr srv)" w _ _ G, OF prod.collapse [symmetric]]
      assms Some by (simp add: send_heartbeat_def)
qed (use assms in \<open>simp add: send_heartbeat_def\<close>)

lemma monitor_inv:
  "chunks_from G (monitor en w) = chunks_from G w" "master_from G (monitor en w) = master_from G w"
proof -
  show "master_from G (monitor en w) = master_from G w"
    by (cases "w_master w") (simp_all add: monitor_def master_from_def)
qed (simp add: monitor_def chunks_from_def)

lemma own_store_inv:
  assumes "own_store a (store_apply_result io x) w = (r, w')" "chunks_from G w" "master_from G w" "logged G x"
  shows "chunks_from G w' \<and> master_from G w'"
  using assms chunks_from_own_store [of G w x a io] own_store_master [of a "store_apply_result io x" w]
  by (simp add: master_from_def)

lemma recovery_answer_logged:
  assumes "call_master en (RegisterChunkRequest i a n) w = (Got (RecoveryResponse es), w')" "master_from G w"
  shows "\<forall>x \<in> set (map recovery_op es). logged G x"
proof -
  obtain m where "w_master w = Some m" "set (map recovery_op es) \<subseteq> set (wal_ops (ms_wal m))"
    using recovery_answer [OF assms(1)] by (metis filter_is_subset)
  then show ?thesis using assms(2) by (auto simp: master_from_def)
qed

lemma proto_step_inv:
  assumes "proto_step s s'" "proto_inv G s"
  shows "\<exists>G'. G \<subseteq>\<^sub>m G' \<and> proto_inv G' s'"
proof -
  have same: "\<exists>G'. G \<subseteq>\<^sub>m G' \<and> proto_inv G' s'" if "proto_inv G s'"
    using that by (intro exI [of _ G]) simp
  from assms show ?thesis
  proof (cases rule: proto_step.cases)
    case (ask en k w p rs n w' v d T)
    then show ?thesis using proto_inv_ask [of en k w p rs n w' G v d T] assms(2) by simp
  next
    case (ask_fails en k w r w' v d T)
    then show ?thesis
      using assms(2) proto_inv_call [of en "GetPrimaryRequest k" w r w' G] by (intro same) (auto simp: proto_inv_def)
  next
    case (store a io x w w' T)
    then show ?thesis
      using assms(2) own_store_inv [OF store(3), of G] by (intro same) (simp add: proto_inv_def)
  next
    case (store_fails a io x w err w' T)
    then show ?thesis
      using assms(2) own_store_inv [OF store_fails(3), of G] by (intro same) (simp add: proto_inv_def)
  next
    case (replicas en x w rs w' T)
    then have "w' = snd (call_master en (GetPrimaryRequest (op_key x)) w)"
      using get_replica_addrs_state [of "call_master en" "op_key x" w] by simp
    then show ?thesis
      using assms(2) replicas proto_inv_call [of en "GetPrimaryRequest (op_key x)" w _ _ G, OF prod.collapse [symmetric]]
      by (intro same) (simp add: proto_inv_def)
  next
    case (replicate en b x w r w' rs T)
    then have "w' = snd (call_leaf en b (ReplicateRequest (op_key x) (op_value x) (op_seq x) (op_delete x)) w)"
      using replicate_to_state [of "call_leaf en" b "op_key x" "op_value x" "op_seq x" "op_delete x" w] by simp
    then show ?thesis
      using assms(2) replicate chunks_from_call_leaf [of G w x en b] call_leaf_master
      by (intro same) (simp add: proto_inv_def master_from_def)
  next
    case (notify en x w r w' T)
    then show ?thesis
      using assms(2) proto_inv_call [of en "WALNotify (op_key x) (op_value x) (op_seq x) (op_delete x)" w r w' G]
      by (intro same) (auto simp: proto_inv_def)
  next
    case (register w a srv en es w' T)
    then show ?thesis
      using assms(2) recovery_answer_logged [OF register(4), of G] proto_inv_call [OF register(4), of G]
      by (intro same) (simp add: proto_inv_def)
  next
    case (register_fails en i a n w r w' T)
    then show ?thesis
      using assms(2) proto_inv_call [OF register_fails(3), of G] by (intro same) (simp add: proto_inv_def)
  next
    case (recover w a x xs T io)
    then show ?thesis
      using assms(2) own_store_inv [OF prod.collapse [symmetric], where a = a and io = io and x = x and w = w and G = G] by (intro same) (simp add: proto_inv_def)
  next
    case (read m k pre en w r w' T)
    then show ?thesis
      using assms(2) proto_inv_call [of en m w r w' G] by (intro same) (auto simp: proto_inv_def)
  next
    case (beat w T en a)
    then show ?thesis
      using assms(2) send_heartbeat_inv [of G w en a] by (intro same) (simp add: proto_inv_def)
  qed (rule same, use assms(2) in \<open>simp add: proto_inv_def monitor_inv\<close>)+
qed

lemma fault_step_inv:
  assumes "fault_step s s'" "proto_inv G s"
  shows "proto_inv G s'"
  using assms
proof (cases rule: fault_step.cases)
  case (restart_chunk w a srv rd listing w' T)
  then show ?thesis
    using chunks_from_restart [of G w a srv "cs_id srv" None rd listing w'] assms(2)
    by (auto simp: proto_inv_def master_from_def)
next
  case (chunk_stops w T a)
  then show ?thesis
    using assms(2) by (auto simp: proto_inv_def chunks_from_def master_from_def stop_chunk_def)
next
  case (master_stops w T)
  then show ?thesis
    using assms(2) by (simp add: proto_inv_def chunks_from_def master_from_def stop_master_def)
qed

lemma any_step_inv: "any_step s s' \<Longrightarrow> proto_inv G s \<Longrightarrow> \<exists>G'. G \<subseteq>\<^sub>m G' \<and> proto_inv G' s'"
  unfolding any_step_def using proto_step_inv fault_step_inv map_le_refl by blast

lemma fresh_inv: "fresh s \<Longrightarrow> proto_inv Map.empty s"
  by (auto simp: fresh_def proto_inv_def chunks_from_def master_from_def tasks_from_def store_from_def
      empty_store_def wal_ops_def)

lemma reachable_inv: "any_step\<^sup>*\<^sup>* s s' \<Longrightarrow> proto_inv G s \<Longrightarrow> \<exists>G'. G \<subseteq>\<^sub>m G' \<and> proto_inv G' s'"
proof (induction rule: rtranclp_induct)
  case (step s1 s2)
  then show ?case using any_step_inv map_le_trans by blast
next
  case base
  then show ?case using map_le_refl by blast
qed

section \<open>The handlers are runs of steps\<close>

lemma proto_steps: "proto_step s s' \<Longrightarrow> proto_step\<^sup>*\<^sup>* s' s'' \<Longrightarrow> proto_step\<^sup>*\<^sup>* s s''"
  by (rule converse_rtranclp_into_rtranclp)

lemma replicate_run:
  "proto_step\<^sup>*\<^sup>* (state w (add_mset (Replicating x rs) T))
     (state (replicate_all (call_leaf en) rs (op_key x) (op_value x) (op_seq x) (op_delete x) w) (add_mset (Notifying x) T))"
proof (induction rs arbitrary: w)
  case Nil
  show ?case using proto_step.reply by (auto simp: replicate_all_def)
next
  case (Cons b rs)
  let ?r = "replicate_to (call_leaf en) b (op_key x) (op_value x) (op_seq x) (op_delete x) w"
  have "proto_step (state w (add_mset (Replicating x (b # rs)) T)) (state (snd ?r) (add_mset (Replicating x rs) T))"
    by (rule proto_step.replicate [of en b x w "fst ?r"]) simp
  moreover have "replicate_all (call_leaf en) (b # rs) (op_key x) (op_value x) (op_seq x) (op_delete x) w
      = replicate_all (call_leaf en) rs (op_key x) (op_value x) (op_seq x) (op_delete x) (snd ?r)"
    by (simp add: replicate_all_def)
  ultimately show ?case using proto_steps [OF _ Cons.IH [of "snd ?r"]] by simp
qed

lemma room_same: "w_master w' = w_master w \<Longrightarrow> room w \<Longrightarrow> room w'"
  by (simp add: room_def)

lemma handler_run:
  assumes "fst (own_store a (store_apply_result (en_io en a) x) w) = None" "w_chunks w a \<noteq> None" "room w"
  shows "proto_step\<^sup>*\<^sup>* (state w (add_mset (Sending a x) T)) (state (after_op en a x w) (add_mset (Notifying x) T))"
proof -
  let ?w1 = "after_local en a x w"
  let ?q = "get_replica_addrs (call_master en) (op_key x) ?w1"
  have "proto_step (state w (add_mset (Sending a x) T)) (state ?w1 (add_mset (Stored x) T))"
    using assms(1,2) by (intro proto_step.store [where io = "en_io en a"]) (simp_all add: after_local_def prod_eq_iff)
  moreover have "room ?w1" using assms(3) by (rule room_same [rotated]) (rule after_local_master)
  then have "proto_step (state ?w1 (add_mset (Stored x) T)) (state (snd ?q) (add_mset (Replicating x (fst ?q)) T))"
    by (rule proto_step.replicas [rotated]) simp
  moreover have "after_op en a x w
      = replicate_all (call_leaf en) (fst ?q) (op_key x) (op_value x) (op_seq x) (op_delete x) (snd ?q)"
    using assms(1) by (simp add: after_op_def replicas_told_def)
  ultimately show ?thesis using replicate_run [of "snd ?q" x "fst ?q" T en] by (simp add: proto_steps)
qed

section \<open>Entries never go back\<close>

lemma entries_own_store_apply:
  "entries_at w b \<le> entries_at (snd (own_store a (store_apply_result io x) w)) b"
  using versions_own_store [of "entries_at w" w "store_apply_result io x" a]
    store_apply_increasing [unfolded store_apply_def] by simp

lemma entries_same: "w_chunks w' = w_chunks w \<Longrightarrow> entries_at w' b = entries_at w b"
  by (simp add: entries_at_def)

lemma entries_call: "call_master en m w = (r, w') \<Longrightarrow> entries_at w' b = entries_at w b"
  using call_master_chunks [of en m w] by (intro entries_same) simp

lemma proto_step_entries:
  assumes "proto_step s s'"
  shows "entries_at (pr_world s) b \<le> entries_at (pr_world s') b"
  using assms
proof (cases rule: proto_step.cases)
  case (store a io x w w' T)
  then show ?thesis using entries_own_store_apply [of w b a io x] by simp
next
  case (store_fails a io x w err w' T)
  then show ?thesis using entries_own_store_apply [of w b a io x] by simp
next
  case (recover w a x xs T io)
  then show ?thesis using entries_own_store_apply [of w b a io x] by simp
next
  case (replicate en c x w r w' rs T)
  then have "w' = snd (call_leaf en c (ReplicateRequest (op_key x) (op_value x) (op_seq x) (op_delete x)) w)"
    using replicate_to_state [of "call_leaf en" c "op_key x" "op_value x" "op_seq x" "op_delete x" w] by simp
  then have "entries_at w' b = entries_at w b \<or> entries_at w' b = lww x (entries_at w b)"
    using entries_call_leaf [of en c "op_key x" "op_value x" "op_seq x" "op_delete x" w b] by auto
  then show ?thesis using replicate lww_increasing by auto
next
  case (replicas en x w rs w' T)
  then show ?thesis using get_replica_addrs_frame(1) [of en "op_key x" w] by simp
next
  case (beat w T en a)
  then show ?thesis by (simp add: send_heartbeat_def frame_simps split: option.split)
next
  case (monitor w T en)
  then show ?thesis by (simp add: monitor_def entries_at_def)
qed (simp_all add: entries_call)

section \<open>A concrete run\<close>

text \<open>The example system after the master has handed out the number 1.\<close>

definition example_asked :: world where
  "example_asked = example_world\<lparr>w_master := Some (example_master\<lparr>ms_meta := snd (next_seq_num (ms_meta example_master))\<rparr>)\<rparr>"

lemma example_fresh: "fresh (state example_world {#})"
  by (auto simp: fresh_def example_world_def example_server_def example_master_def new_metadata_def split: if_splits)

lemma example_room: "room example_world" "room example_asked"
  by (simp_all add: room_def example_world_def example_asked_def example_master_def new_metadata_def next_seq_num_def)

lemma example_asks:
  "proto_step\<^sup>*\<^sup>* (state example_world {#}) (state example_asked {#Sending ''a'' (put_op ''bob/x'' [7] 1)#})"
proof -
  have n: "md_seq (ms_meta example_master) + 1 = 1" "ci_addr example_primary = ''a''"
    by (simp_all add: example_master_def new_metadata_def example_primary_def)
  obtain rs where "call_master example_env (GetPrimaryRequest ''bob/x'') example_world
      = (Got (GetPrimaryResponse ''a'' rs 1), example_asked)"
    using get_primary_fine [OF example_fine example_knows, of "''bob/x''"] unfolding n example_asked_def by blast
  then have "proto_step (state example_world {#Wanting ''bob/x'' [7] False#})
      (state example_asked {#Sending ''a'' (op_of ''bob/x'' [7] False 1)#})"
    by (rule proto_step.ask) (simp_all add: example_room)
  then show ?thesis
    using proto_step.want [of example_world "{#}" "''bob/x''" "[7]" False]
    by (auto simp: op_of_def intro: proto_steps)
qed

lemma example_asked_knows:
  "master_knows example_env example_asked (example_master\<lparr>ms_meta := snd (next_seq_num (ms_meta example_master))\<rparr>) example_primary"
  using example_knows by (simp add: master_knows_def example_asked_def del: example_registry)

lemma example_asked_entries [simp]: "entries_at example_asked b = Map.empty"
  using example_entries [of b] by (simp add: entries_at_def example_asked_def)

lemma example_writes:
  "proto_step\<^sup>*\<^sup>* (state example_world {#})
     (state (after_op example_env ''a'' (put_op ''bob/x'' [7] 1) example_asked) {#Notifying (put_op ''bob/x'' [7] 1)#})"
  "b \<in> {''a'', ''b'', ''c''} \<Longrightarrow> entries_at (after_op example_env ''a'' (put_op ''bob/x'' [7] 1) example_asked) b
     = [''bob/x'' \<mapsto> \<lparr>e_value = [7], e_seq = 1, e_deleted = False\<rparr>]"
proof -
  have srv: "w_chunks example_asked ''a'' = Some (example_server ''c1'' ''a'')"
    by (simp add: example_asked_def example_world_def)
  then have "fst (own_store ''a'' (store_apply_result (en_io example_env ''a'') (put_op ''bob/x'' [7] 1)) example_asked) = None"
    by (simp add: own_store_same error_apply example_env_def)
  from handler_run [OF this _ example_room(2), of "{#}"] srv
  show "proto_step\<^sup>*\<^sup>* (state example_world {#})
     (state (after_op example_env ''a'' (put_op ''bob/x'' [7] 1) example_asked) {#Notifying (put_op ''bob/x'' [7] 1)#})"
    using example_asks by simp
next
  let ?s = "example_master\<lparr>ms_meta := snd (next_seq_num (ms_meta example_master))\<rparr>"
  have al: "alive_addrs ?s = {''a'', ''b'', ''c''}"
    using example_alive by (simp add: alive_addrs_def)
  have "ci_addr example_primary = ''a''" by (simp add: example_primary_def)
  moreover have "alive_addrs ?s \<subseteq> dom (w_chunks example_asked)"
    unfolding al by (auto simp: example_asked_def example_world_def)
  ultimately show "entries_at (after_op example_env ''a'' (put_op ''bob/x'' [7] 1) example_asked) b
     = [''bob/x'' \<mapsto> \<lparr>e_value = [7], e_seq = 1, e_deleted = False\<rparr>]" if "b \<in> {''a'', ''b'', ''c''}"
    using after_op_fine [OF example_fine example_asked_knows, of "put_op ''bob/x'' [7] 1" b] that
    by (simp add: al lww_def covers_def entry_of_def)
qed

lemma any_steps: "proto_step\<^sup>*\<^sup>* s s' \<Longrightarrow> any_step\<^sup>*\<^sup>* s s'"
  by (rule mono_rtranclp [rule_format, of proto_step any_step]) (auto simp: any_step_def)

section \<open>Properties\<close>

text \<open>Claim C1. However requests interleave, are lost or fail, and however often chunk servers restart
  from their files or stop, as long as the master runs on and its counter does not wrap around: one
  sequence number never stands for two different versions, in whichever servers and under whichever
  keys they are found; and the master's log never says two things about one version.\<close>

theorem one_value_per_version:
  assumes "any_step\<^sup>*\<^sup>* s s'" "fresh s"
  shows "(\<forall>a b k k' e e'. entries_at (pr_world s') a k = Some e \<and> entries_at (pr_world s') b k' = Some e'
            \<and> e_seq e = e_seq e' \<longrightarrow> e = e')
    \<and> (\<forall>m. w_master (pr_world s') = Some m \<longrightarrow> agree (set (wal_ops (ms_wal m))))"
proof -
  obtain G where inv: "proto_inv G s'"
    using reachable_inv [OF assms(1) fresh_inv [OF assms(2)]] by blast
  have mem: "comes_from G e" if "entries_at (pr_world s') a k = Some e" for a k e
    using that inv by (auto simp: entries_at_def proto_inv_def chunks_from_def store_from_def split: option.splits)
  have "e = e'" if "comes_from G e" "comes_from G e'" "e_seq e = e_seq e'" for e e'
    using that by (auto simp: comes_from_def)
  moreover have "agree (set (wal_ops (ms_wal m)))" if "w_master (pr_world s') = Some m" for m
  proof -
    have "\<forall>x \<in> set (wal_ops (ms_wal m)). G (op_seq x) = Some x"
      using that inv by (simp add: proto_inv_def master_from_def logged_def)
    then show ?thesis unfolding agree_def by (metis option.inject)
  qed
  ultimately show ?thesis using mem by blast
qed

theorem one_value_per_version_witness:
  "\<exists>w e. any_step\<^sup>*\<^sup>* (state example_world {#}) (state w {#Notifying (put_op ''bob/x'' [7] 1)#})
    \<and> entries_at w ''a'' ''bob/x'' = Some e \<and> e_value e = [7]
    \<and> (\<forall>b k' e'. entries_at w b k' = Some e' \<and> e_seq e = e_seq e' \<longrightarrow> e = e')"
proof -
  let ?w = "after_op example_env ''a'' (put_op ''bob/x'' [7] 1) example_asked"
  have run: "any_step\<^sup>*\<^sup>* (state example_world {#}) (state ?w {#Notifying (put_op ''bob/x'' [7] 1)#})"
    by (rule any_steps [OF example_writes(1)])
  have e: "entries_at ?w ''a'' ''bob/x'' = Some \<lparr>e_value = [7], e_seq = 1, e_deleted = False\<rparr>"
    by (simp add: example_writes(2))
  have "\<forall>b k' e'. entries_at ?w b k' = Some e' \<and> e_seq \<lparr>e_value = [7], e_seq = 1, e_deleted = False\<rparr> = e_seq e'
      \<longrightarrow> \<lparr>e_value = [7], e_seq = 1, e_deleted = False\<rparr> = e'"
    using conjunct1 [OF one_value_per_version [OF run example_fresh]] e by (metis proto.select_convs(1))
  then show ?thesis using run e by (intro exI [of _ ?w] exI conjI) (assumption | simp)+
qed

text \<open>Claim C7. What \<open>handleWrite\<close> and \<open>handleDelete\<close> do without interruption is one of the runs of the
  fine-grained system, from receiving the operation to the acknowledgement.\<close>

theorem handlers_are_runs:
  assumes "w_chunks w a = Some srv" "room w"
  shows "(fst (chunk_at en a (WriteRequest k v n) w) = Answer (WriteResponse True n []) \<longrightarrow>
      proto_step\<^sup>*\<^sup>* (state w (add_mset (Sending a (op_of k v False n)) T))
        (state (snd (chunk_at en a (WriteRequest k v n) w)) (add_mset (Notifying (op_of k v False n)) T)))
    \<and> (fst (chunk_at en a (DeleteRequest k n) w) = Answer (DeleteResponse True []) \<longrightarrow>
      proto_step\<^sup>*\<^sup>* (state w (add_mset (Sending a (op_of k v True n)) T))
        (state (snd (chunk_at en a (DeleteRequest k n) w)) (add_mset (Notifying (op_of k v True n)) T)))"
proof -
  have "fst (own_store a (put (en_io en a) k v n) w) = None"
    if "fst (chunk_at en a (WriteRequest k v n) w) = Answer (WriteResponse True n [])"
    using that by (simp add: write_reply split: option.splits)
  moreover have "fst (own_store a (delete (en_io en a) k n) w) = None"
    if "fst (chunk_at en a (DeleteRequest k n) w) = Answer (DeleteResponse True [])"
    using that by (simp add: delete_reply split: option.splits)
  ultimately show ?thesis
    using handler_run [of a en "put_op k v n" w T] handler_run [of a en "delete_op k n" w T] assms
    by (auto simp: op_of_def handle_write_after_op handle_delete_after_op put_is_apply [abs_def] delete_is_apply [abs_def])
qed

theorem handlers_are_runs_witness:
  "proto_step\<^sup>*\<^sup>* (state example_world {#Sending ''a'' (op_of ''bob/x'' [7] False 1)#})
     (state (snd (chunk_at example_env ''a'' (WriteRequest ''bob/x'' [7] 1) example_world))
        {#Notifying (op_of ''bob/x'' [7] False 1)#})"
proof -
  have srv: "w_chunks example_world ''a'' = Some (example_server ''c1'' ''a'')"
    by (simp add: example_world_def)
  then have "fst (chunk_at example_env ''a'' (WriteRequest ''bob/x'' [7] 1) example_world) = Answer (WriteResponse True 1 [])"
    by (simp add: write_reply own_store_same put_is_apply error_apply example_env_def)
  then show ?thesis using handlers_are_runs [OF srv example_room(1)] by simp
qed

text \<open>Claim C8. While no process restarts or stops, no server ever forgets a key or goes back to an
  older version of one, in any interleaving of requests and with any failures of the network and
  the disks.\<close>

theorem no_server_goes_back:
  assumes "proto_step\<^sup>*\<^sup>* s s'"
  shows "entries_at (pr_world s) b \<le> entries_at (pr_world s') b"
  using assms
proof (induction rule: rtranclp_induct)
  case (step s1 s2)
  then show ?case using proto_step_entries [of s1 s2 b] by (blast intro: order_trans)
qed simp

theorem no_server_goes_back_witness:
  "entries_at example_world ''b''
    \<le> entries_at (after_op example_env ''a'' (put_op ''bob/x'' [7] 1) example_asked) ''b''"
  using no_server_goes_back [OF example_writes(1), of "''b''"] by simp

end
