(* ===== verification/Vault.thy ===== *)
theory Vault
  imports Crypto Json Protocol
begin

text \<open>
  The vault client (\<open>pkg/vault/vault.go\<close>): saving, reading, deleting and listing password
  entries through the master and the chunk servers. Each request of an operation has an environment of
  its own: \<open>es 0\<close> for the first, \<open>es 1\<close> for the second and so on. The last property says what a save comes
  to after the master was restarted and its servers registered again.
\<close>

section \<open>The client\<close>

record password_entry =
  pe_site :: string
  pe_username :: string
  pe_password :: string

definition entry_fields :: "string list" where
  "entry_fields = [''site'', ''username'', ''password'']"

definition marshal_entry :: "password_entry \<Rightarrow> bytes" where
  "marshal_entry e = map of_nat (encode_struct
     [(''site'', pe_site e), (''username'', pe_username e), (''password'', pe_password e)])"

definition entry_of_struct :: "(string \<Rightarrow> string) \<Rightarrow> password_entry" where
  "entry_of_struct f = \<lparr>pe_site = f ''site'', pe_username = f ''username'', pe_password = f ''password''\<rparr>"

definition unmarshal_entry :: "bytes \<Rightarrow> password_entry option" where
  "unmarshal_entry b = map_option entry_of_struct (unmarshal_struct entry_fields (map unat b))"

record vclient =
  vc_key :: bytes
  vc_user :: string

definition new_client :: "bytes \<Rightarrow> string \<Rightarrow> vclient" where
  "new_client vaultKey username = \<lparr>vc_key = vaultKey, vc_user = username\<rparr>"

definition entry_key :: "vclient \<Rightarrow> string \<Rightarrow> key" where
  "entry_key c site = vc_user c @ ''/'' @ site"

definition get_primary :: "'w call \<Rightarrow> key \<Rightarrow> 'w \<Rightarrow> (string + addr \<times> addr list \<times> uint64) \<times> 'w" where
  "get_primary ask_master k w =
    (case ask_master (GetPrimaryRequest k) w of
       (DialErr, w) \<Rightarrow> (Inl ''dial'', w)
     | (RecvErr, w) \<Rightarrow> (Inl ''receive'', w)
     | (Got (GetPrimaryResponse p rs n), w) \<Rightarrow> (Inr (p, rs, n), w)
     | (Got _, w) \<Rightarrow> (Inl ''unexpected response from master'', w))"

definition get_chunk_addr :: "'w call \<Rightarrow> key \<Rightarrow> 'w \<Rightarrow> (string + addr) \<times> 'w" where
  "get_chunk_addr ask_master k w =
    (case ask_master (GetChunkRequest k) w of
       (DialErr, w) \<Rightarrow> (Inl ''dial'', w)
     | (RecvErr, w) \<Rightarrow> (Inl ''receive'', w)
     | (Got (GetChunkResponse a ok), w) \<Rightarrow> (if \<not> ok then Inl ''no healthy chunk available'' else Inr a, w)
     | (Got _, w) \<Rightarrow> (Inl ''no healthy chunk available'', w))"

definition notify_master_wal :: "'w call \<Rightarrow> key \<Rightarrow> bytes \<Rightarrow> uint64 \<Rightarrow> bool \<Rightarrow> 'w \<Rightarrow> 'w" where
  "notify_master_wal ask_master k v n d w = snd (ask_master (WALNotify k v n d) w)"

text \<open>The dash of the code's messages, in UTF-8.\<close>

definition dash :: string where
  "dash = map char_of [0xE2, 0x80, 0x94 :: nat]"

definition vault_save ::
  "string + bytes \<Rightarrow> (nat \<Rightarrow> env) \<Rightarrow> vclient \<Rightarrow> password_entry \<Rightarrow> world \<Rightarrow> string option \<times> world" where
  "vault_save rnd es c entry w =
    (case encrypt rnd (vc_key c) (marshal_entry entry) of
       Inl err \<Rightarrow> (Some err, w)
     | Inr ciphertext \<Rightarrow>
         let key = entry_key c (pe_site entry) in
         (case get_primary (call_master (es 0)) key w of
            (Inl err, w) \<Rightarrow> (Some err, w)
          | (Inr (primary, _, seqNum), w) \<Rightarrow>
              if primary = [] then (Some (''primary unavailable '' @ dash @ '' writes temporarily disabled''), w)
              else
                (case call_chunk (es 1) primary (WriteRequest key ciphertext seqNum) w of
                   (DialErr, w) \<Rightarrow> (Some (''primary unavailable '' @ dash @ '' could not connect to '' @ primary @ '': dial''), w)
                 | (RecvErr, w) \<Rightarrow> (Some ''receive'', w)
                 | (Got (WriteResponse ok _ err), w) \<Rightarrow>
                     if \<not> ok then (Some err, w)
                     else (None, notify_master_wal (call_master (es 2)) key ciphertext seqNum False w)
                 | (Got _, w) \<Rightarrow> (Some ''write failed'', w))))"

definition vault_get :: "(nat \<Rightarrow> env) \<Rightarrow> vclient \<Rightarrow> string \<Rightarrow> world \<Rightarrow> (string + password_entry) \<times> world" where
  "vault_get es c site w =
    (let key = entry_key c site in
     (case get_chunk_addr (call_master (es 0)) key w of
        (Inl err, w) \<Rightarrow> (Inl err, w)
      | (Inr addr, w) \<Rightarrow>
          (case call_chunk (es 1) addr (ReadRequest key) w of
             (DialErr, w) \<Rightarrow> (Inl ''dial'', w)
           | (RecvErr, w) \<Rightarrow> (Inl ''receive'', w)
           | (Got (ReadResponse value ok n), w) \<Rightarrow>
               (if \<not> ok then Inl ''entry not found''
                else
                  (case decrypt (vc_key c) value of
                     Inl err \<Rightarrow> Inl (''decryption failed (wrong master password?): '' @ err)
                   | Inr plaintext \<Rightarrow>
                       (case unmarshal_entry plaintext of None \<Rightarrow> Inl ''json'' | Some entry \<Rightarrow> Inr entry)), w)
           | (Got _, w) \<Rightarrow> (Inl ''entry not found'', w))))"

definition vault_delete :: "(nat \<Rightarrow> env) \<Rightarrow> vclient \<Rightarrow> string \<Rightarrow> world \<Rightarrow> string option \<times> world" where
  "vault_delete es c site w =
    (let key = entry_key c site in
     (case get_primary (call_master (es 0)) key w of
        (Inl err, w) \<Rightarrow> (Some err, w)
      | (Inr (primary, _, seqNum), w) \<Rightarrow>
          if primary = [] then (Some ''primary unavailable'', w)
          else
            (case call_chunk (es 1) primary (DeleteRequest key seqNum) w of
               (DialErr, w) \<Rightarrow> (Some ''dial'', w)
             | (RecvErr, w) \<Rightarrow> (Some ''receive'', w)
             | (Got (DeleteResponse ok _), w) \<Rightarrow>
                 if \<not> ok then (Some ''delete failed'', w)
                 else (None, notify_master_wal (call_master (es 2)) key [] seqNum True w)
             | (Got _, w) \<Rightarrow> (Some ''delete failed'', w))))"

definition vault_list :: "env \<Rightarrow> vclient \<Rightarrow> world \<Rightarrow> (string + string list) \<times> world" where
  "vault_list en c w =
    (let pre = vc_user c @ ''/'' in
     (case call_master en (ListKeysRequest pre) w of
        (DialErr, w) \<Rightarrow> (Inl ''dial'', w)
      | (RecvErr, w) \<Rightarrow> (Inl ''receive'', w)
      | (Got (ListKeysResponse ks), w) \<Rightarrow> (Inr (filter (\<lambda>s. s \<noteq> []) (map (\<lambda>k. trim_prefix k pre) ks)), w)
      | (Got _, w) \<Rightarrow> (Inl ''unexpected response'', w)))"

section \<open>What the operations need\<close>

text \<open>JSON gives back an entry whose strings are UTF-8.\<close>

definition utf8_password_entry :: "password_entry \<Rightarrow> bool" where
  "utf8_password_entry e \<longleftrightarrow> coerce_utf8 (pe_site e) = pe_site e \<and> coerce_utf8 (pe_username e) = pe_username e
     \<and> coerce_utf8 (pe_password e) = pe_password e"

lemma unmarshal_marshal_entry:
  "unmarshal_entry (marshal_entry e) = Some \<lparr>pe_site = coerce_utf8 (pe_site e),
     pe_username = coerce_utf8 (pe_username e), pe_password = coerce_utf8 (pe_password e)\<rparr>"
proof -
  let ?fs = "[(''site'', pe_site e), (''username'', pe_username e), (''password'', pe_password e)]"
  have "unmarshal_struct entry_fields (encode_struct ?fs) = Some (write_fields ?fs (\<lambda>_. []))"
    by (rule unmarshal_encode_struct) (simp_all add: entry_fields_def)
  then show ?thesis
    by (simp add: unmarshal_entry_def marshal_entry_def unat_of_nat_bytes entry_of_struct_def write_fields_def
        del: map_map)
qed

lemma unmarshal_utf8_entry: "utf8_password_entry e \<Longrightarrow> unmarshal_entry (marshal_entry e) = Some e"
  by (simp add: unmarshal_marshal_entry utf8_password_entry_def)

text \<open>The encoding of entries is a codec.\<close>

interpretation entry_codec: codec marshal_entry unmarshal_entry utf8_password_entry
  by unfold_locales (rule unmarshal_utf8_entry)

text \<open>What is stored for an entry, and what a read makes of a stored value.\<close>

definition sealed_entry :: "bytes \<Rightarrow> bytes \<Rightarrow> password_entry \<Rightarrow> bytes" where
  "sealed_entry r key e = take 12 r @ gcm_seal key (take 12 r) (marshal_entry e)"

definition opened :: "bytes \<Rightarrow> bytes \<Rightarrow> string + password_entry" where
  "opened key v =
    (case decrypt key v of
       Inl err \<Rightarrow> Inl (''decryption failed (wrong master password?): '' @ err)
     | Inr plaintext \<Rightarrow> (case unmarshal_entry plaintext of None \<Rightarrow> Inl ''json'' | Some entry \<Rightarrow> Inr entry))"

lemma opened_sealed:
  assumes "utf8_password_entry e" "key_size_ok key" "12 \<le> length r"
  shows "opened key (sealed_entry r key e) = Inr e"
  using decrypt_encrypt [OF encrypt_ok [OF assms(2)] assms(3)] assms(1)
  by (simp add: opened_def sealed_entry_def unmarshal_utf8_entry)

section \<open>A save in a healthy system\<close>

text \<open>The world after the master has handed out a number.\<close>

definition after_ask :: "world \<Rightarrow> mserver \<Rightarrow> world" where
  "after_ask w s = w\<lparr>w_master := Some (s\<lparr>ms_meta := snd (next_seq_num (ms_meta s))\<rparr>)\<rparr>"

definition asked :: "mserver \<Rightarrow> mserver" where
  "asked s = s\<lparr>ms_meta := snd (next_seq_num (ms_meta s))\<rparr>"

lemma asked_simps [simp]:
  "ms_registry (asked s) = ms_registry s" "ms_wal (asked s) = ms_wal s" "ms_read_idx (asked s) = ms_read_idx s"
  "md_primary (ms_meta (asked s)) = md_primary (ms_meta s)" "md_seq (ms_meta (asked s)) = md_seq (ms_meta s) + 1"
  by (simp_all add: asked_def)

lemma after_ask_simps [simp]:
  "w_master (after_ask w s) = Some (asked s)" "w_chunks (after_ask w s) = w_chunks w"
  "entries_at (after_ask w s) = entries_at w"
  by (simp_all add: after_ask_def asked_def entries_at_def [abs_def])

lemma alive_addrs_registry: "ms_registry s' = ms_registry s \<Longrightarrow> alive_addrs s' = alive_addrs s"
  by (simp add: alive_addrs_def)

lemma master_knows_asked: "master_knows en w s c \<Longrightarrow> master_knows en (after_ask w s) (asked s) c"
  by (simp add: master_knows_def)

lemma get_primary_healthy:
  assumes "all_fine en" "master_knows en w s c"
  shows "\<exists>rs. get_primary (call_master en) k w = (Inr (ci_addr c, rs, md_seq (ms_meta s) + 1), after_ask w s)"
  using get_primary_fine [OF assms, of k] by (simp add: get_primary_def after_ask_def)

lemma call_chunk_healthy:
  assumes "all_fine en" "w_chunks w a \<noteq> None" "fst (chunk_at en a m w) = Answer r"
  shows "call_chunk en a m w = (Got r, snd (chunk_at en a m w))"
  using assms rpc_Fine_Answer [of "chunk_at en a m" w r] by (simp add: call_chunk_def all_fine_def)

text \<open>The master after a write: one more number is used up by the question for the replicas.\<close>

lemma replicate_all_master: "w_master (replicate_all (call_leaf en) rs k v n d w) = w_master w"
  unfolding replicate_all_def
  by (rule fold_const_field) (simp add: replicate_to_state frame_simps)

lemma replicate_all_dom: "dom (w_chunks (replicate_all (call_leaf en) rs k v n d w)) = dom (w_chunks w)"
  unfolding replicate_all_def
  by (rule fold_const_field [where g = "\<lambda>w. dom (w_chunks w)"]) (simp only: replicate_to_state call_leaf_dom)

lemma after_op_healthy:
  assumes "all_fine en" "master_knows en w s c" "w_chunks w (ci_addr c) \<noteq> None"
  shows "w_master (after_op en (ci_addr c) x w) = Some (asked s)
    \<and> dom (w_chunks (after_op en (ci_addr c) x w)) = dom (w_chunks w)"
proof -
  let ?w1 = "after_local en (ci_addr c) x w"
  have "fst (own_store (ci_addr c) (store_apply_result (en_io en (ci_addr c)) x) w) = None"
    using assms(1,3) by (auto simp: own_store_same error_apply all_fine_def)
  moreover have "master_knows en ?w1 s c"
    using assms(2) by (simp add: master_knows_def frame_simps)
  then have "snd (get_replica_addrs (call_master en) (op_key x) ?w1) = after_ask ?w1 s"
    using get_primary_fine [OF assms(1), of ?w1 s c "op_key x"] by (simp add: get_replica_addrs_state after_ask_def)
  ultimately show ?thesis
    by (simp add: after_op_def replicate_all_master replicate_all_dom after_local_dom)
qed

lemma notify_healthy:
  assumes "all_fine en" "w_master w = Some s"
  shows "notify_master_wal (call_master en) k v n d w = w\<lparr>w_master := Some (s\<lparr>ms_wal := wal_append IoOk k v n d (ms_wal s)\<rparr>)\<rparr>"
  using assms by (simp add: notify_master_wal_def call_master_def all_fine_def master_at_def handle_wal_notify_def)

text \<open>A save and a deletion that succeed, in one form.\<close>

definition after_change :: "env \<Rightarrow> chunk_info \<Rightarrow> mserver \<Rightarrow> op \<Rightarrow> world \<Rightarrow> world" where
  "after_change en c s x w =
    (after_op en (ci_addr c) x (after_ask w s))\<lparr>w_master := Some ((asked (asked s))\<lparr>ms_wal :=
        wal_append IoOk (op_key x) (op_value x) (op_seq x) (op_delete x) (ms_wal s)\<rparr>)\<rparr>"

lemma vault_save_healthy:
  assumes fine: "all_fine en" and mk: "master_knows en w s c" and up: "alive_addrs s \<subseteq> dom (w_chunks w)"
    and key: "key_size_ok (vc_key v)"
  shows "vault_save (Inr r) (\<lambda>_. en) v e w =
    (None, after_change en c s (put_op (entry_key v (pe_site e)) (sealed_entry r (vc_key v) e) (md_seq (ms_meta s) + 1)) w)"
proof -
  let ?k = "entry_key v (pe_site e)" and ?n = "md_seq (ms_meta s) + 1" and ?ct = "sealed_entry r (vc_key v) e"
  let ?w1 = "after_ask w s"
  have enc: "encrypt (Inr r) (vc_key v) (marshal_entry e) = Inr ?ct"
    by (simp add: encrypt_ok [OF key] sealed_entry_def)
  obtain rs where ask: "get_primary (call_master en) ?k w = (Inr (ci_addr c, rs, ?n), ?w1)"
    using get_primary_healthy [OF fine mk] by blast
  have mk1: "master_knows en ?w1 (asked s) c" by (rule master_knows_asked [OF mk])
  have "ci_addr c \<in> alive_addrs s" using mk by (auto simp: alive_addrs_def master_knows_def)
  then have upc: "w_chunks ?w1 (ci_addr c) \<noteq> None" using up by auto
  have ne: "ci_addr c \<noteq> []" using mk by (simp add: master_knows_def)
  have "fst (own_store (ci_addr c) (put (en_io en (ci_addr c)) ?k ?ct ?n) ?w1) = None"
    using fine upc by (auto simp: own_store_same put_is_apply error_apply all_fine_def)
  then have "fst (chunk_at en (ci_addr c) (WriteRequest ?k ?ct ?n) ?w1) = Answer (WriteResponse True ?n [])"
    by (simp add: write_reply)
  from call_chunk_healthy [OF fine upc this]
  have call: "call_chunk en (ci_addr c) (WriteRequest ?k ?ct ?n) ?w1
      = (Got (WriteResponse True ?n []), after_op en (ci_addr c) (put_op ?k ?ct ?n) ?w1)"
    by (simp add: handle_write_after_op)
  have "w_master (after_op en (ci_addr c) (put_op ?k ?ct ?n) ?w1) = Some (asked (asked s))"
    using after_op_healthy [OF fine mk1 upc] by blast
  note notify = notify_healthy [OF fine this, of ?k ?ct ?n False]
  show ?thesis
    using ne by (simp add: vault_save_def enc ask call notify after_change_def Let_def)
qed

lemma vault_delete_healthy:
  assumes fine: "all_fine en" and mk: "master_knows en w s c" and up: "alive_addrs s \<subseteq> dom (w_chunks w)"
  shows "vault_delete (\<lambda>_. en) v site w =
    (None, after_change en c s (delete_op (entry_key v site) (md_seq (ms_meta s) + 1)) w)"
proof -
  let ?k = "entry_key v site" and ?n = "md_seq (ms_meta s) + 1"
  let ?w1 = "after_ask w s"
  obtain rs where ask: "get_primary (call_master en) ?k w = (Inr (ci_addr c, rs, ?n), ?w1)"
    using get_primary_healthy [OF fine mk] by blast
  have mk1: "master_knows en ?w1 (asked s) c" by (rule master_knows_asked [OF mk])
  have "ci_addr c \<in> alive_addrs s" using mk by (auto simp: alive_addrs_def master_knows_def)
  then have upc: "w_chunks ?w1 (ci_addr c) \<noteq> None" using up by auto
  have ne: "ci_addr c \<noteq> []" using mk by (simp add: master_knows_def)
  have "fst (own_store (ci_addr c) (delete (en_io en (ci_addr c)) ?k ?n) ?w1) = None"
    using fine upc by (auto simp: own_store_same delete_is_apply error_apply all_fine_def)
  then have "fst (chunk_at en (ci_addr c) (DeleteRequest ?k ?n) ?w1) = Answer (DeleteResponse True [])"
    by (simp add: delete_reply)
  from call_chunk_healthy [OF fine upc this]
  have call: "call_chunk en (ci_addr c) (DeleteRequest ?k ?n) ?w1
      = (Got (DeleteResponse True []), after_op en (ci_addr c) (delete_op ?k ?n) ?w1)"
    by (simp add: handle_delete_after_op)
  have "w_master (after_op en (ci_addr c) (delete_op ?k ?n) ?w1) = Some (asked (asked s))"
    using after_op_healthy [OF fine mk1 upc] by blast
  note notify = notify_healthy [OF fine this, of ?k "[]" ?n True]
  show ?thesis
    using ne by (simp add: vault_delete_def ask call notify after_change_def Let_def)
qed

text \<open>What a change leaves behind.\<close>

lemma entries_after_change:
  assumes "all_fine en" "master_knows en w s c" "alive_addrs s \<subseteq> dom (w_chunks w)"
  shows "entries_at (after_change en c s x w) b =
    (if b \<in> alive_addrs s then lww x (entries_at w b) else entries_at w b)"
proof -
  have "entries_at (after_change en c s x w) b = entries_at (after_op en (ci_addr c) x (after_ask w s)) b"
    by (simp add: after_change_def entries_at_def)
  also have "\<dots> = (if b \<in> alive_addrs s then lww x (entries_at w b) else entries_at w b)"
    using after_op_fine [OF assms(1) master_knows_asked [OF assms(2)]] assms(3)
    by (simp add: alive_addrs_registry [of "asked s" s])
  finally show ?thesis .
qed

lemma after_change_system:
  assumes "all_fine en" "master_knows en w s c" "alive_addrs s \<subseteq> dom (w_chunks w)"
  shows "\<exists>s'. w_master (after_change en c s x w) = Some s' \<and> ms_registry s' = ms_registry s
    \<and> ms_read_idx s' = ms_read_idx s \<and> dom (w_chunks (after_change en c s x w)) = dom (w_chunks w)
    \<and> ms_meta s' = ms_meta (asked (asked s))"
proof -
  have "ci_addr c \<in> alive_addrs s" using assms(2) by (auto simp: alive_addrs_def master_knows_def)
  then have "w_chunks (after_ask w s) (ci_addr c) \<noteq> None" using assms(3) by auto
  from after_op_healthy [OF assms(1) master_knows_asked [OF assms(2)] this]
  show ?thesis by (simp add: after_change_def)
qed

section \<open>Reading in a healthy system\<close>

text \<open>What a read at a server that holds the entries \<open>m\<close> gives.\<close>

definition read_result :: "vclient \<Rightarrow> string \<Rightarrow> versions \<Rightarrow> string + password_entry" where
  "read_result v site m =
    (case m (entry_key v site) of
       Some e \<Rightarrow> if e_deleted e then Inl ''entry not found'' else opened (vc_key v) (e_value e)
     | None \<Rightarrow> Inl ''entry not found'')"

text \<open>The requests of a reader go through, and every server that counts as alive is up.\<close>

definition readable :: "env \<Rightarrow> world \<Rightarrow> mserver \<Rightarrow> bool" where
  "readable en w s \<longleftrightarrow> all_fine en \<and> w_master w = Some s \<and> range_order (ms_registry s) (en_ids en)
     \<and> unat (ms_read_idx s) + 1 < 2 ^ 63 \<and> alive_addrs s \<subseteq> dom (w_chunks w) \<and> alive_addrs s \<noteq> {}"

text \<open>The server the round robin has come to.\<close>

definition next_reader :: "env \<Rightarrow> mserver \<Rightarrow> addr" where
  "next_reader en s = (let al = alive_chunks (en_ids en) (ms_registry s)
     in ci_addr (al ! ((unat (ms_read_idx s) + 1) mod length al)))"

lemma next_reader_alive:
  assumes "readable en w s"
  shows "next_reader en s \<in> alive_addrs s"
proof -
  let ?al = "alive_chunks (en_ids en) (ms_registry s)"
  have mem: "d \<in> set ?al \<longleftrightarrow> (\<exists>i. ms_registry s i = Some d \<and> ci_alive d)" for d
    using assms by (auto simp: readable_def alive_chunks_order)
  have "?al \<noteq> []" using assms mem by (force simp: readable_def alive_addrs_def)
  then have "?al ! ((unat (ms_read_idx s) + 1) mod length ?al) \<in> set ?al" by simp
  then show ?thesis using mem by (auto simp: next_reader_def Let_def alive_addrs_def)
qed

lemma get_chunk_addr_healthy:
  assumes "readable en w s"
  shows "get_chunk_addr (call_master en) k w = (Inr (next_reader en s),
    w\<lparr>w_master := Some (s\<lparr>ms_read_idx := ms_read_idx s + 1\<rparr>)\<rparr>)"
proof -
  have "alive_ids_of (ms_registry s) \<noteq> {}"
    using assms by (auto simp: readable_def alive_addrs_def alive_ids_of_def)
  then have "handle_get_chunk (en_ids en) s =
      (Answer (GetChunkResponse (next_reader en s) True), s\<lparr>ms_read_idx := ms_read_idx s + 1\<rparr>)"
    using handle_get_chunk_healthy [of s "en_ids en"] assms by (simp add: readable_def next_reader_def Let_def)
  then show ?thesis
    using assms by (simp add: get_chunk_addr_def call_master_def master_at_def readable_def all_fine_def)
qed

lemma vault_get_healthy:
  assumes "readable en w s"
  shows "fst (vault_get (\<lambda>_. en) v site w) = read_result v site (entries_at w (next_reader en s))"
proof -
  let ?b = "next_reader en s" and ?k = "entry_key v site"
  let ?w = "w\<lparr>w_master := Some (s\<lparr>ms_read_idx := ms_read_idx s + 1\<rparr>)\<rparr>"
  obtain srv where srv: "w_chunks w ?b = Some srv"
    using next_reader_alive [OF assms] assms by (auto simp: readable_def)
  have "fst (call_chunk en ?b (ReadRequest ?k) ?w) = Got (handle_read ?k (cs_store srv))"
    using call_chunk_read [of en ?b ?w ?k] assms srv by (simp add: readable_def all_fine_def)
  then obtain w' where "call_chunk en ?b (ReadRequest ?k) ?w = (Got (handle_read ?k (cs_store srv)), w')"
    by (metis prod.collapse)
  then show ?thesis
    using handle_read_entries [OF srv, of ?k]
    by (auto simp: vault_get_def get_chunk_addr_healthy [OF assms] Let_def read_result_def opened_def
        split: option.splits)
qed

lemma readable_after_change:
  assumes "readable en' w s" "all_fine en" "master_knows en w s c"
  shows "\<exists>s'. readable en' (after_change en c s x w) s' \<and> next_reader en' s' = next_reader en' s
    \<and> alive_addrs s' = alive_addrs s"
proof -
  have up: "alive_addrs s \<subseteq> dom (w_chunks w)" using assms(1) by (simp add: readable_def)
  obtain s' where s': "w_master (after_change en c s x w) = Some s'" "ms_registry s' = ms_registry s"
    "ms_read_idx s' = ms_read_idx s" "dom (w_chunks (after_change en c s x w)) = dom (w_chunks w)"
    using after_change_system [OF assms(2,3) up] by blast
  have "alive_addrs s' = alive_addrs s" by (rule alive_addrs_registry [OF s'(2)])
  then show ?thesis
    using s' assms(1) by (intro exI [of _ s']) (simp add: readable_def next_reader_def)
qed

lemma read_after_change:
  assumes "readable en' w s" "all_fine en" "master_knows en w s c"
  shows "fst (vault_get (\<lambda>_. en') v site (after_change en c s x w))
    = read_result v site (lww x (entries_at w (next_reader en' s)))"
proof -
  have up: "alive_addrs s \<subseteq> dom (w_chunks w)" using assms(1) by (simp add: readable_def)
  obtain s' where s': "readable en' (after_change en c s x w) s'" "next_reader en' s' = next_reader en' s"
    using readable_after_change [OF assms] by blast
  show ?thesis
    using vault_get_healthy [OF s'(1)] entries_after_change [OF assms(2,3) up] next_reader_alive [OF assms(1)] s'(2)
    by simp
qed

lemma entry_key_site [simp]: "entry_key v site = entry_key v site' \<longleftrightarrow> site = site'"
  by (simp add: entry_key_def)

lemma read_result_other:
  "op_key x = entry_key v site \<Longrightarrow> site' \<noteq> site \<Longrightarrow> read_result v site' (lww x m) = read_result v site' m"
  by (simp add: read_result_def)

text \<open>No server holds a number the master has not handed out.\<close>

definition numbers_issued :: "world \<Rightarrow> mserver \<Rightarrow> bool" where
  "numbers_issued w s \<longleftrightarrow> (\<forall>b k e. entries_at w b k = Some e \<longrightarrow> e_seq e \<le> md_seq (ms_meta s))"

lemma next_is_new:
  assumes "numbers_issued w s" "room w" "w_master w = Some s"
  shows "op_seq x = md_seq (ms_meta s) + 1 \<Longrightarrow> \<not> covers (entries_at w b) x"
proof
  assume x: "op_seq x = md_seq (ms_meta s) + 1" "covers (entries_at w b) x"
  then obtain e where e: "entries_at w b (op_key x) = Some e" "md_seq (ms_meta s) + 1 \<le> e_seq e"
    unfolding covers_def x(1) by blast
  then have "e_seq e \<le> md_seq (ms_meta s)" using assms(1) unfolding numbers_issued_def by blast
  with e(2) have "md_seq (ms_meta s) + 1 \<le> md_seq (ms_meta s)" by (rule order_trans)
  then show False using counter_step [OF assms(2,3)] by (simp add: not_less [symmetric] del: not_less)
qed

text \<open>In every state the system can reach, this holds.\<close>

lemma reachable_numbers_issued:
  assumes "any_step\<^sup>*\<^sup>* s0 (state w T)" "fresh s0" "w_master w = Some m"
  shows "numbers_issued w m"
  unfolding numbers_issued_def
proof (intro allI impI)
  fix b k e assume e: "entries_at w b k = Some e"
  obtain G where inv: "proto_inv G (state w T)"
    using reachable_inv [OF assms(1) fresh_inv [OF assms(2)]] by blast
  then have "comes_from G e"
    using e by (auto simp: entries_at_def proto_inv_def chunks_from_def store_from_def split: option.splits)
  then have "e_seq e \<in> dom G" by (auto simp: comes_from_def)
  then show "e_seq e \<le> md_seq (ms_meta m)"
    using inv assms(3) by (simp add: proto_inv_def master_from_def)
qed

text \<open>A save and a read of the same site, in one healthy system after another.\<close>

lemma save_then_read:
  assumes "all_fine en" "master_knows en w s c" "room w" "numbers_issued w s" "readable en' w s"
    and "key_size_ok (vc_key v)" "12 \<le> length r" "utf8_password_entry e"
  defines "x \<equiv> put_op (entry_key v (pe_site e)) (sealed_entry r (vc_key v) e) (md_seq (ms_meta s) + 1)"
  shows "vault_save (Inr r) (\<lambda>_. en) v e w = (None, after_change en c s x w)"
    and "fst (vault_get (\<lambda>_. en') v (pe_site e) (after_change en c s x w)) = Inr e"
proof -
  have up: "alive_addrs s \<subseteq> dom (w_chunks w)" and m: "w_master w = Some s"
    using assms(5) by (simp_all add: readable_def)
  show "vault_save (Inr r) (\<lambda>_. en) v e w = (None, after_change en c s x w)"
    unfolding x_def by (rule vault_save_healthy [OF assms(1,2) up assms(6)])
  have "\<not> covers (entries_at w (next_reader en' s)) x"
    unfolding x_def by (rule next_is_new [OF assms(4,3) m]) simp
  then have "read_result v (pe_site e) (lww x (entries_at w (next_reader en' s))) = Inr e"
    using opened_sealed [OF assms(8,6,7)] by (simp add: x_def read_result_def lww_def entry_of_def)
  then show "fst (vault_get (\<lambda>_. en') v (pe_site e) (after_change en c s x w)) = Inr e"
    using read_after_change [OF assms(5,1,2)] by simp
qed

section \<open>Listing\<close>

lemma trim_prefixes:
  assumes "\<forall>k \<in> S. has_prefix k pre"
  shows "inj_on (\<lambda>k. trim_prefix k pre) S" "(\<lambda>k. trim_prefix k pre) ` S = {t. pre @ t \<in> S}"
proof -
  have split: "pre @ trim_prefix k pre = k" if "k \<in> S" for k
    using that assms by (intro trim_prefix_has) simp
  show "inj_on (\<lambda>k. trim_prefix k pre) S"
    by (rule inj_on_inverseI [where g = "\<lambda>t. pre @ t"]) (rule split)
  show "(\<lambda>k. trim_prefix k pre) ` S = {t. pre @ t \<in> S}"
  proof (intro equalityI subsetI)
    fix t assume "t \<in> {t. pre @ t \<in> S}"
    then show "t \<in> (\<lambda>k. trim_prefix k pre) ` S"
      by (intro rev_image_eqI [where x = "pre @ t"]) (simp_all add: trim_prefix_append)
  qed (auto simp: split)
qed

text \<open>The server the master forwards a listing to: the first alive one in the order of its registry.\<close>

definition first_alive :: "env \<Rightarrow> mserver \<Rightarrow> addr" where
  "first_alive en s = ci_addr (hd (alive_chunks (en_ids en) (ms_registry s)))"

lemma list_keys_healthy:
  assumes "readable en w s" "range_order (entries_at w (first_alive en s)) (en_keys en (first_alive en s))"
  shows "first_alive en s \<in> alive_addrs s \<and> (\<exists>ks. call_master en (ListKeysRequest pre) w = (Got (ListKeysResponse ks), w) \<and> distinct ks
    \<and> set ks = {k. has_prefix k pre \<and> (\<exists>e. entries_at w (first_alive en s) k = Some e \<and> \<not> e_deleted e)})"
proof -
  let ?al = "alive_chunks (en_ids en) (ms_registry s)"
  let ?b = "first_alive en s"
  have mem: "d \<in> set ?al \<longleftrightarrow> (\<exists>i. ms_registry s i = Some d \<and> ci_alive d)" for d
    using assms(1) by (auto simp: readable_def alive_chunks_order)
  have ne: "?al \<noteq> []" using assms(1) mem by (force simp: readable_def alive_addrs_def)
  then have "hd ?al \<in> set ?al" by simp
  then have b: "?b \<in> alive_addrs s" using mem by (auto simp: alive_addrs_def first_alive_def)
  then obtain srv where srv: "w_chunks w ?b = Some srv" using assms(1) by (auto simp: readable_def)
  define ks where "ks = keys_with_prefix (en_keys en ?b) pre (cs_store srv)"
  have ent: "entries_at w ?b = st_entries (cs_store srv)" using srv by (simp add: entries_at_def)
  have ro: "range_order (st_entries (cs_store srv)) (en_keys en ?b)" using assms(2) ent by metis
  have "fst (call_leaf en ?b (ListKeysRequest pre) w) = Got (ListKeysResponse ks)"
    unfolding ks_def
    using srv assms(1) by (simp add: call_leaf_def leaf_at_def readable_def all_fine_def chunk_list_keys_def)
  then have "call_master en (ListKeysRequest pre) w = (Got (ListKeysResponse ks), w)"
    using ne assms(1)
    by (simp add: call_master_def master_at_def readable_def all_fine_def handle_list_keys_def first_alive_def Let_def)
  moreover have "distinct ks" using ro by (simp add: ks_def keys_with_prefix_def range_order_def)
  moreover have "k \<in> set (en_keys en ?b) \<longleftrightarrow> (\<exists>e. st_entries (cs_store srv) k = Some e)" for k
    using ro by (rule range_order_mem)
  then have "set ks = {k. has_prefix k pre \<and> (\<exists>e. entries_at w ?b k = Some e \<and> \<not> e_deleted e)}"
    unfolding ent by (fastforce simp: ks_def keys_with_prefix_def split: option.splits)
  ultimately show ?thesis using b by blast
qed

lemma vault_list_healthy:
  assumes "readable en w s" "range_order (entries_at w (first_alive en s)) (en_keys en (first_alive en s))"
  shows "first_alive en s \<in> alive_addrs s \<and> (\<exists>sites. vault_list en v w = (Inr sites, w) \<and> distinct sites
    \<and> set sites = {site. site \<noteq> [] \<and> (\<exists>e. entries_at w (first_alive en s) (entry_key v site) = Some e \<and> \<not> e_deleted e)})"
proof -
  let ?pre = "vc_user v @ ''/''"
  obtain ks where b: "first_alive en s \<in> alive_addrs s" and call: "call_master en (ListKeysRequest ?pre) w = (Got (ListKeysResponse ks), w)"
    and ks: "distinct ks" "set ks = {k. has_prefix k ?pre \<and> (\<exists>e. entries_at w (first_alive en s) k = Some e \<and> \<not> e_deleted e)}"
    using list_keys_healthy [OF assms] by blast
  let ?sites = "filter (\<lambda>s. s \<noteq> []) (map (\<lambda>k. trim_prefix k ?pre) ks)"
  have pre: "\<forall>k \<in> set ks. has_prefix k ?pre" unfolding ks(2) by simp
  have "vault_list en v w = (Inr ?sites, w)" by (simp add: vault_list_def call Let_def)
  moreover have "distinct ?sites" using ks(1) trim_prefixes(1) [OF pre] by (simp add: distinct_map)
  moreover have "set ?sites = {site. site \<noteq> [] \<and> ?pre @ site \<in> set ks}"
    using trim_prefixes(2) [OF pre] by auto
  then have "set ?sites = {site. site \<noteq> [] \<and> (\<exists>e. entries_at w (first_alive en s) (entry_key v site) = Some e \<and> \<not> e_deleted e)}"
    unfolding ks(2) by (simp add: entry_key_def has_prefix_def)
  ultimately show ?thesis using b by blast
qed

section \<open>The example system, seen by a reader and a writer\<close>

lemma example_readable: "readable example_env example_world example_master"
proof -
  have "range_order (ms_registry example_master) (en_ids example_env)"
    using example_knows by (simp add: master_knows_def)
  then show ?thesis
    using example_up by (simp add: readable_def example_fine example_alive)
      (simp add: example_world_def example_master_def)
qed

lemma example_issued: "numbers_issued example_world example_master"
  by (simp add: numbers_issued_def)

definition example_client :: vclient where
  "example_client = new_client (replicate 32 7) ''bob''"

definition example_entry :: password_entry where
  "example_entry = \<lparr>pe_site = ''mail'', pe_username = ''bob@mail'', pe_password = ''secret''\<rparr>"

lemma example_client_key: "key_size_ok (vc_key example_client)"
  by (simp add: example_client_def new_client_def key_size_ok_def)

lemma example_entry_utf8: "utf8_password_entry example_entry"
  by (simp add: utf8_password_entry_def example_entry_def coerce_utf8_ascii)

section \<open>Properties\<close>

text \<open>Claim C9. In a healthy system a save succeeds, and a read of the same site that follows, at whichever
  alive server the round robin picks, decrypts to the saved entry; what a read of any other site
  of the user would have returned, it still returns.\<close>

theorem save_then_get:
  assumes "all_fine en" "master_knows en w s c" "room w" "numbers_issued w s"
    and "readable en' w s"
    and "key_size_ok (vc_key v)" "12 \<le> length r" "utf8_password_entry e"
  shows "\<exists>w'. vault_save (Inr r) (\<lambda>_. en) v e w = (None, w')
    \<and> fst (vault_get (\<lambda>_. en') v (pe_site e) w') = Inr e
    \<and> (\<forall>site. site \<noteq> pe_site e \<longrightarrow> fst (vault_get (\<lambda>_. en') v site w') = fst (vault_get (\<lambda>_. en') v site w))"
proof -
  have "read_result v site (lww x m) = read_result v site m"
    if "site \<noteq> pe_site e" "op_key x = entry_key v (pe_site e)" for site m x
    using that by (intro read_result_other)
  then show ?thesis
    using save_then_read [OF assms] read_after_change [OF assms(5,1,2)] vault_get_healthy [OF assms(5)] by simp
qed

theorem save_then_get_witness:
  "\<exists>w'. vault_save (Inr (replicate 12 5)) (\<lambda>_. example_env) example_client example_entry example_world = (None, w')
    \<and> fst (vault_get (\<lambda>_. example_env) example_client ''mail'' w') = Inr example_entry"
  using save_then_get [OF example_fine example_knows example_room(1) example_issued example_readable example_client_key _
      example_entry_utf8, of "replicate 12 5"]
  by (simp add: example_entry_def) blast

text \<open>Claim C10. In a healthy system a deletion succeeds, a read of the same site that follows finds nothing,
  and reads of other sites are unaffected.\<close>

theorem delete_then_get:
  assumes "all_fine en" "master_knows en w s c" "room w" "numbers_issued w s" "readable en' w s"
  shows "\<exists>w'. vault_delete (\<lambda>_. en) v site w = (None, w')
    \<and> fst (vault_get (\<lambda>_. en') v site w') = Inl ''entry not found''
    \<and> (\<forall>site'. site' \<noteq> site \<longrightarrow> fst (vault_get (\<lambda>_. en') v site' w') = fst (vault_get (\<lambda>_. en') v site' w))"
proof -
  let ?x = "delete_op (entry_key v site) (md_seq (ms_meta s) + 1)"
  have up: "alive_addrs s \<subseteq> dom (w_chunks w)" and m: "w_master w = Some s"
    using assms(5) by (simp_all add: readable_def)
  have "\<not> covers (entries_at w (next_reader en' s)) ?x"
    by (rule next_is_new [OF assms(4,3) m]) simp
  then have "read_result v site (lww ?x (entries_at w (next_reader en' s))) = Inl ''entry not found''"
    by (simp add: read_result_def lww_def)
  moreover have "read_result v site' (lww ?x m) = read_result v site' m" if "site' \<noteq> site" for site' m
    using that by (intro read_result_other) simp_all
  ultimately show ?thesis
    using vault_delete_healthy [OF assms(1,2) up] read_after_change [OF assms(5,1,2)]
      vault_get_healthy [OF assms(5)] by simp
qed

theorem delete_then_get_witness:
  "\<exists>w'. vault_delete (\<lambda>_. example_env) example_client ''mail'' example_world = (None, w')
    \<and> fst (vault_get (\<lambda>_. example_env) example_client ''mail'' w') = Inl ''entry not found''"
  using delete_then_get [OF example_fine example_knows example_room(1) example_issued example_readable, of example_client "''mail''"]
  by blast

text \<open>Claim C11. Listing in a healthy system is answered by the first alive server in the order of the master's registry: it
  returns, each once, exactly the sites with a name that the user has there and has not deleted, and changes
  nothing. An entry without a site name is never listed.\<close>

theorem list_is_exact:
  assumes "readable en w s" "range_order (entries_at w (first_alive en s)) (en_keys en (first_alive en s))"
  shows "first_alive en s \<in> alive_addrs s \<and> (\<exists>sites. vault_list en v w = (Inr sites, w) \<and> distinct sites
    \<and> set sites = {site. site \<noteq> [] \<and> (\<exists>e. entries_at w (first_alive en s) (entry_key v site) = Some e \<and> \<not> e_deleted e)})"
  by (rule vault_list_healthy [OF assms])

text \<open>Only the server that is asked holds entries: two of the user, one deleted, one without a name, one of another user.\<close>

definition listed_ops :: "op list" where
  "listed_ops = [put_op ''bob/mail'' [7] 1, put_op ''bob/bank'' [8] 2, delete_op ''bob/bank'' 3, put_op ''bob/'' [9] 4, put_op ''eve/x'' [9] 5]"

definition listed_world :: world where
  "listed_world = example_world\<lparr>w_chunks := (w_chunks example_world)(''b'' \<mapsto>
    \<lparr>cs_id = ''c2'', cs_addr = ''b'', cs_store = deliver store_apply (map (Pair IoOk) listed_ops) empty_store\<rparr>)\<rparr>"

theorem list_is_exact_witness:
  "\<exists>sites. vault_list (example_env\<lparr>en_keys := (\<lambda>_. [''eve/x'', ''bob/'', ''bob/bank'', ''bob/mail''])\<rparr>) example_client listed_world
      = (Inr sites, listed_world) \<and> distinct sites \<and> set sites = {''mail''}"
proof -
  let ?en = "example_env\<lparr>en_keys := (\<lambda>_. [''eve/x'', ''bob/'', ''bob/bank'', ''bob/mail''])\<rparr>"
  have b: "first_alive ?en example_master = ''b''" by (simp add: first_alive_def alive_chunks_def example_env_def)
  have ent: "entries_at listed_world ''b'' = [''bob/mail'' \<mapsto> \<lparr>e_value = [7], e_seq = 1, e_deleted = False\<rparr>,
      ''bob/bank'' \<mapsto> \<lparr>e_value = [], e_seq = 3, e_deleted = True\<rparr>, ''bob/'' \<mapsto> \<lparr>e_value = [9], e_seq = 4, e_deleted = False\<rparr>,
      ''eve/x'' \<mapsto> \<lparr>e_value = [9], e_seq = 5, e_deleted = False\<rparr>]"
    by (simp add: listed_world_def entries_at_def listed_ops_def store.view_apply)
       (simp add: empty_store_def lww_def covers_def entry_of_def put_op_def delete_op_def fun_eq_iff)
  have "readable ?en listed_world example_master"
    using example_readable by (auto simp: readable_def all_fine_def listed_world_def)
  moreover have "range_order (entries_at listed_world ''b'') (en_keys ?en ''b'')"
    unfolding range_order_def ent by auto
  ultimately obtain sites where s: "vault_list ?en example_client listed_world = (Inr sites, listed_world)" "distinct sites"
    "set sites = {site. site \<noteq> [] \<and> (\<exists>e. entries_at listed_world ''b'' (entry_key example_client site) = Some e \<and> \<not> e_deleted e)}"
    using list_is_exact [of ?en listed_world example_master example_client] by (auto simp: b)
  have "set sites = {''mail''}"
    unfolding s(3) ent by (auto simp: entry_key_def example_client_def new_client_def split: if_splits)
  with s(1,2) show ?thesis by blast
qed

text \<open>Claim C6. A restarted master counts on from its log alone. When a server still holds a version of an entry with a number that
  never reached the log, then, after the primary and any other servers have registered again and in an otherwise
  healthy system, the number the user's next save of that entry gets is the one after the log's highest: the save is reported as
  successful, but the primary keeps the old version.\<close>

theorem restart_loses_acknowledged_write:
  assumes "start_master p mkdir_err ok f (stop_master w) = Inr w1" "w_master w1 = Some s1"
    and "all_fine en" "master_knows en (register_all rs w1) s c" "alive_addrs s \<subseteq> dom (w_chunks (register_all rs w1))"
    and "key_size_ok (vc_key v)"
    and "entries_at w (ci_addr c) (entry_key v (pe_site e)) = Some old" "max_seq_num (ms_wal s1) < e_seq old"
  shows "\<exists>rep w2 w3. call_master en (GetPrimaryRequest (entry_key v (pe_site e))) (register_all rs w1)
        = (Got (GetPrimaryResponse (ci_addr c) rep (max_seq_num (ms_wal s1) + 1)), w2)
    \<and> vault_save (Inr r) (\<lambda>_. en) v e (register_all rs w1) = (None, w3)
    \<and> entries_at w3 (ci_addr c) (entry_key v (pe_site e)) = Some old"
proof -
  let ?k = "entry_key v (pe_site e)" and ?w = "register_all rs w1"
  have s1: "md_seq (ms_meta s1) = max_seq_num (ms_wal s1)" "entries_at w1 = entries_at w"
    using start_master_state [OF assms(1)] assms(2) by (auto simp: stop_master_def entries_at_def)
  have seq: "md_seq (ms_meta s) = max_seq_num (ms_wal s1)"
    using register_all_keeps(1) [OF assms(2), of rs] assms(4) s1(1) by (auto simp: master_knows_def)
  have "op_seq x \<le> e_seq old" if "x \<in> set (wal_ops (ms_wal s1))" for x
    using wal_ops_max [OF that] assms(8) by simp
  then have old: "entries_at ?w (ci_addr c) ?k = Some old"
    using register_all_keeps(2) [OF assms(2)] assms(7) by (simp add: s1(2))
  have "max_seq_num (ms_wal s1) + 1 \<le> e_seq old" using assms(8) by (rule inc_le)
  then have "covers (entries_at ?w (ci_addr c)) (put_op ?k x (md_seq (ms_meta s) + 1))" for x
    using old by (simp add: covers_def seq)
  then have "entries_at (after_change en c s (put_op ?k x (md_seq (ms_meta s) + 1)) ?w) (ci_addr c) ?k = Some old" for x
    using entries_after_change [OF assms(3-5)] old by simp
  then show ?thesis
    using get_primary_fine [OF assms(3,4), of ?k] vault_save_healthy [OF assms(3-6), of r e] by (simp add: seq)
qed

text \<open>The primary holds number 1 of bob's entry, of which the master was never told; it registers with the restarted master.\<close>

definition unlogged_world :: world where
  "unlogged_world = \<lparr>w_master = Some example_master, w_chunks = [''a'' \<mapsto> \<lparr>cs_id = ''c1'', cs_addr = ''a'',
     cs_store = store_apply IoOk (put_op ''bob/mail'' [7] 1) empty_store\<rparr>]\<rparr>"

theorem restart_loses_acknowledged_write_witness:
  "\<exists>w1 w3. start_master ''c1'' None True None (stop_master unlogged_world) = Inr w1
    \<and> vault_save (Inr (replicate 12 5)) (\<lambda>_. example_env\<lparr>en_ids := [''c1'']\<rparr>) example_client example_entry
        (register_all [(example_env, \<lambda>_. IoOk, ''a'')] w1) = (None, w3)
    \<and> entries_at w3 ''a'' ''bob/mail'' = Some \<lparr>e_value = [7], e_seq = 1, e_deleted = False\<rparr>"
proof -
  let ?en = "example_env\<lparr>en_ids := [''c1'']\<rparr>" and ?old = "\<lparr>e_value = [7], e_seq = 1, e_deleted = False\<rparr> :: entry"
  obtain w1 s1 where w1: "start_master ''c1'' None True None (stop_master unlogged_world) = Inr w1" "w_master w1 = Some s1"
    "ms_wal s1 = \<lparr>wal_entries = [], wal_file = None\<rparr>" "ms_registry s1 = Map.empty" "md_primary (ms_meta s1) = ''c1''"
    "w_chunks w1 = w_chunks unlogged_world"
    by (simp add: start_master_def master_boot_def new_wal_def master_start_def set_seq_num_def new_metadata_def new_registry_def stop_master_def)
  obtain srv where srv: "w_chunks w1 ''a'' = Some srv" "cs_id srv = ''c1''" "cs_addr srv = ''a''"
    by (simp add: w1(6) unlogged_world_def)
  obtain ds where reg: "w_master (register_all [(example_env, \<lambda>_. IoOk, ''a'')] w1) = Some (registered example_env srv s1)"
    using register_attempt_fine [of example_env w1 s1 "''a''" srv "\<lambda>_. IoOk"] w1(2) srv(1) example_fine
    by (auto simp: register_all_def all_fine_def)
  let ?c = "\<lparr>ci_id = ''c1'', ci_addr = ''a'', ci_last_beat = second, ci_alive = True, ci_last_seq = last_seq_num (cs_store srv)\<rparr>"
  have r: "ms_registry (registered example_env srv s1) = [''c1'' \<mapsto> ?c]"
    by (simp add: registered_def register_def w1(4) srv example_env_def)
  have "master_knows ?en (register_all [(example_env, \<lambda>_. IoOk, ''a'')] w1) (registered example_env srv s1) ?c"
    using reg by (simp add: master_knows_def r reg_inv_def range_order_def w1(5))
  moreover have "''a'' \<in> dom (w_chunks (register_all [(example_env, \<lambda>_. IoOk, ''a'')] w1))"
    using srv(1) by (simp add: register_all_def frame_simps del: domIff) blast
  then have "alive_addrs (registered example_env srv s1) \<subseteq> dom (w_chunks (register_all [(example_env, \<lambda>_. IoOk, ''a'')] w1))"
    by (auto simp: alive_addrs_def r split: if_splits)
  moreover have "entries_at unlogged_world ''a'' ''bob/mail'' = Some ?old"
    by (simp add: unlogged_world_def entries_at_def store.view_apply) (simp add: empty_store_def lww_def covers_def entry_of_def put_op_def)
  ultimately show ?thesis
    using restart_loses_acknowledged_write [OF w1(1,2), of ?en "[(example_env, \<lambda>_. IoOk, ''a'')]" "registered example_env srv s1" ?c
        example_client example_entry ?old "replicate 12 5"] w1(1) example_client_key example_fine
    by (auto simp: w1(3) max_seq_num_def all_fine_def example_client_def example_entry_def entry_key_def new_client_def)
qed

text \<open>Claim C20. Users whose names have no slash never share a storage key; but a name with a slash does share
  keys with another user's sites, which then overwrite each other and show up in the other's list.\<close>

theorem entry_keys_need_slash_free_names:
  "(CHR ''/'' \<notin> set (vc_user v) \<and> CHR ''/'' \<notin> set (vc_user v')
      \<longrightarrow> (entry_key v site = entry_key v' site' \<longleftrightarrow> vc_user v = vc_user v' \<and> site = site'))
    \<and> entry_key (new_client k (u @ ''/'' @ t)) site = entry_key (new_client k' u) (t @ ''/'' @ site)
    \<and> has_prefix (entry_key (new_client k (u @ ''/'' @ t)) site) (vc_user (new_client k' u) @ ''/'')"
proof -
  have "vc_user v = vc_user v' \<and> site = site'"
    if "CHR ''/'' \<notin> set (vc_user v)" "CHR ''/'' \<notin> set (vc_user v')" "entry_key v site = entry_key v' site'"
  proof -
    have eq: "vc_user v @ CHR ''/'' # site = vc_user v' @ CHR ''/'' # site'"
      using that(3) by (simp add: entry_key_def)
    have "takeWhile (\<lambda>c. c \<noteq> CHR ''/'') (u @ CHR ''/'' # t) = u" if "CHR ''/'' \<notin> set u" for u t
      using that by (induction u) auto
    then have "vc_user v = vc_user v'" using eq that(1,2) by metis
    with eq show ?thesis by simp
  qed
  moreover have "entry_key (new_client k (u @ ''/'' @ t)) site = entry_key (new_client k' u) (t @ ''/'' @ site)"
    by (simp add: entry_key_def new_client_def)
  moreover have "has_prefix (entry_key (new_client k (u @ ''/'' @ t)) site) (vc_user (new_client k' u) @ ''/'')"
    by (simp add: entry_key_def new_client_def has_prefix_def)
  ultimately show ?thesis by (metis entry_key_def)
qed

theorem entry_keys_need_slash_free_names_witness:
  "entry_key (new_client [] ''bob'') ''mail'' \<noteq> entry_key (new_client [] ''eve'') ''mail''"
  using entry_keys_need_slash_free_names [of "new_client [] ''bob''" "new_client [] ''eve''" "''mail''" "''mail''"]
  by (simp add: new_client_def)

end
