(* ===== verification/Auth.thy ===== *)
theory Auth
  imports Crypto Go_Text Disk
begin

text \<open>
  User accounts (\<open>pkg/auth/auth.go\<close>): the map in memory and the one JSON file that all processes
  share. Every operation but the opening reloads the file first. The circumstances of a call,
  the read error, the random bytes, the outcome of the write, what an interrupted write leaves
  in the file, the order of the keys in the document, are an \<open>auth_env\<close>.
\<close>

section \<open>Accounts and the file\<close>

record user =
  u_name :: string
  u_hash :: bytes
  u_salt :: bytes

text \<open>The file: missing, of length 0, a document, or bytes that are none.\<close>

datatype users_doc = Absent | Blank | Doc "(string \<times> user) list" | Garbled

record user_store =
  us_file :: users_doc
  us_users :: "string \<rightharpoonup> user"

record auth_env =
  ae_read :: "string option"
  ae_hash :: bytes
  ae_salt :: "string + bytes"
  ae_io :: io
  ae_left :: users_doc
  ae_keys :: "string list"

definition marshal_users :: "string list \<Rightarrow> (string \<rightharpoonup> user) \<Rightarrow> (string \<times> user) list" where
  "marshal_users ks m = concat (map (\<lambda>k. case m k of
      Some u \<Rightarrow> [(coerce_utf8 k, u\<lparr>u_name := coerce_utf8 (u_name u)\<rparr>)] | None \<Rightarrow> []) ks)"

definition unmarshal_users :: "(string \<times> user) list \<Rightarrow> (string \<rightharpoonup> user)" where
  "unmarshal_users xs = fold (\<lambda>(k, u) m. m(k \<mapsto> u)) xs Map.empty"

definition new_user_store :: "string option \<Rightarrow> string option \<Rightarrow> users_doc \<Rightarrow> string + user_store" where
  "new_user_store mkdir_err read_err file =
    (case mkdir_err of
       Some err \<Rightarrow> Inl err
     | None \<Rightarrow> Inr \<lparr>us_file = file,
         us_users = (case (read_err, file) of (None, Doc xs) \<Rightarrow> unmarshal_users xs | _ \<Rightarrow> Map.empty)\<rparr>)"

definition persist_users :: "auth_env \<Rightarrow> user_store \<Rightarrow> string option \<times> user_store" where
  "persist_users A s =
    (case ae_io A of
       IoOk \<Rightarrow> (None, s\<lparr>us_file := Doc (marshal_users (ae_keys A) (us_users s))\<rparr>)
     | IoFail err \<Rightarrow> (Some err, s)
     | IoTorn err \<Rightarrow> (Some err, s\<lparr>us_file := ae_left A\<rparr>))"

definition reload_from_disk :: "auth_env \<Rightarrow> user_store \<Rightarrow> string option \<times> user_store" where
  "reload_from_disk A s =
    (if us_file s = Absent then (None, s\<lparr>us_users := Map.empty\<rparr>)
     else
       (case ae_read A of
          Some err \<Rightarrow> (Some err, s)
        | None \<Rightarrow>
          (case us_file s of
             Doc xs \<Rightarrow> (None, s\<lparr>us_users := unmarshal_users xs\<rparr>)
           | Garbled \<Rightarrow> (Some ''json'', s)
           | _ \<Rightarrow> (None, s\<lparr>us_users := Map.empty\<rparr>))))"

section \<open>Registration and login\<close>

definition min_password_length :: nat where
  "min_password_length = 8"

definition auth_register :: "kdf \<Rightarrow> auth_env \<Rightarrow> string \<Rightarrow> string \<Rightarrow> user_store \<Rightarrow> string option \<times> user_store" where
  "auth_register K A username password s =
    (if username = [] then (Some ''username cannot be empty'', s)
     else if length password < min_password_length then (Some ''password must be at least 8 characters'', s)
     else
       (case reload_from_disk A s of
          (Some err, s) \<Rightarrow> (Some err, s)
        | (None, s) \<Rightarrow>
            if us_users s username \<noteq> None then (Some ''user already exists'', s)
            else
              (case hash_password K (ae_hash A) password of
                 Inl err \<Rightarrow> (Some err, s)
               | Inr h \<Rightarrow>
                   (case generate_salt (ae_salt A) of
                      Inl err \<Rightarrow> (Some err, s)
                    | Inr salt \<Rightarrow>
                        persist_users A (s\<lparr>us_users := (us_users s)(username \<mapsto>
                          \<lparr>u_name = username, u_hash = h, u_salt = salt\<rparr>)\<rparr>)))))"

definition auth_login :: "kdf \<Rightarrow> auth_env \<Rightarrow> string \<Rightarrow> string \<Rightarrow> user_store \<Rightarrow> (string + bytes \<times> bytes) \<times> user_store" where
  "auth_login K A username password s =
    (case reload_from_disk A s of
       (Some err, s) \<Rightarrow> (Inl err, s)
     | (None, s) \<Rightarrow>
         (case us_users s username of
            None \<Rightarrow> (Inl ''user not found'', s)
          | Some user \<Rightarrow>
              if \<not> check_password K (u_hash user) password then (Inl ''invalid password'', s)
              else (Inr (derive_key K password (u_salt user), u_salt user), s)))"

definition get_user :: "auth_env \<Rightarrow> string \<Rightarrow> user_store \<Rightarrow> (string + user) \<times> user_store" where
  "get_user A username s =
    (case reload_from_disk A s of
       (Some err, s) \<Rightarrow> (Inl err, s)
     | (None, s) \<Rightarrow> (case us_users s username of None \<Rightarrow> (Inl ''user not found'', s) | Some user \<Rightarrow> (Inr user, s)))"

section \<open>The accounts on file\<close>

text \<open>What a reload finds; nothing when the file does not decode.\<close>

fun accounts :: "users_doc \<Rightarrow> (string \<rightharpoonup> user) option" where
  "accounts (Doc xs) = Some (unmarshal_users xs)"
| "accounts Garbled = None"
| "accounts _ = Some Map.empty"

lemma reload_from_disk_eq:
  "ae_read A = None \<Longrightarrow> reload_from_disk A s =
    (case accounts (us_file s) of None \<Rightarrow> (Some ''json'', s) | Some m \<Rightarrow> (None, s\<lparr>us_users := m\<rparr>))"
  by (cases "us_file s") (simp_all add: reload_from_disk_def)

lemma reload_from_disk_file [frame_simps]: "us_file (snd (reload_from_disk A s)) = us_file s"
  by (simp add: reload_from_disk_def split: option.split users_doc.split)

lemma auth_login_file [frame_simps]: "us_file (snd (auth_login K A u p s)) = us_file s"
  using reload_from_disk_file [of A s] by (auto simp: auth_login_def split: prod.splits option.splits)

lemma auth_login_eq:
  "ae_read A = None \<Longrightarrow> fst (auth_login K A u p s) =
    (case accounts (us_file s) of
       None \<Rightarrow> Inl ''json''
     | Some m \<Rightarrow>
         (case m u of
            None \<Rightarrow> Inl ''user not found''
          | Some user \<Rightarrow>
              if check_password K (u_hash user) p then Inr (derive_key K p (u_salt user), u_salt user)
              else Inl ''invalid password''))"
  by (simp add: auth_login_def reload_from_disk_eq split: option.split)

text \<open>Documents with names in UTF-8 and one entry per name come back as they were.\<close>

definition utf8_accounts :: "(string \<rightharpoonup> user) \<Rightarrow> bool" where
  "utf8_accounts m \<longleftrightarrow> (\<forall>k u. m k = Some u \<longrightarrow> coerce_utf8 k = k \<and> coerce_utf8 (u_name u) = u_name u)"

lemma fold_upd_pairs:
  "distinct ks \<Longrightarrow> fold (\<lambda>(k, u) m. m(k \<mapsto> u)) (concat (map (\<lambda>k. case f k of Some u \<Rightarrow> [(k, u)] | None \<Rightarrow> []) ks)) m0 k
    = (if k \<in> set ks \<and> f k \<noteq> None then f k else m0 k)"
  by (induction ks arbitrary: m0) (auto split: option.splits)

lemma unmarshal_marshal:
  assumes "range_order m ks" "utf8_accounts m"
  shows "unmarshal_users (marshal_users ks m) = m"
proof
  fix k
  have "marshal_users ks m = concat (map (\<lambda>k. case m k of Some u \<Rightarrow> [(k, u)] | None \<Rightarrow> []) ks)"
    unfolding marshal_users_def
    by (intro arg_cong [of _ _ concat] map_cong refl) (use assms(2) in \<open>auto simp: utf8_accounts_def split: option.split\<close>)
  then have "unmarshal_users (marshal_users ks m) k = (if k \<in> set ks \<and> m k \<noteq> None then m k else None)"
    using assms(1) by (simp add: unmarshal_users_def fold_upd_pairs range_order_def)
  then show "unmarshal_users (marshal_users ks m) k = m k"
    using assms(1) by (auto simp: range_order_def domIff)
qed

text \<open>Reading back the accounts is the codec of the document.\<close>

interpretation users_codec: codec "\<lambda>(ks, m). marshal_users ks m" 
  "\<lambda>xs. Some (map fst xs, unmarshal_users xs)"
  "\<lambda>(ks, m). range_order m ks \<and> utf8_accounts m"
proof
  fix x :: "string list \<times> (string \<rightharpoonup> user)"
  assume "case x of (ks, m) \<Rightarrow> range_order m ks \<and> utf8_accounts m"
  then obtain ks m where x: "x = (ks, m)" and ok: "range_order m ks" "utf8_accounts m" by (cases x) auto
  have "map fst (marshal_users ks' m) = ks'" if "set ks' \<subseteq> dom m" for ks'
    using that ok(2) by (induction ks') (auto simp: marshal_users_def utf8_accounts_def)
  then show "Some (map fst (case x of (ks, m) \<Rightarrow> marshal_users ks m),
      unmarshal_users (case x of (ks, m) \<Rightarrow> marshal_users ks m)) = Some x"
    using ok by (simp add: x unmarshal_marshal range_order_def)
qed

section \<open>What a registration does\<close>

lemma reload_from_disk_None:
  "reload_from_disk A s = (None, s1) \<Longrightarrow> accounts (us_file s) = Some (us_users s1) \<and> us_file s1 = us_file s"
  by (cases "us_file s") (auto simp: reload_from_disk_def split: option.splits)

definition new_account :: "string \<Rightarrow> bytes \<Rightarrow> bytes \<Rightarrow> user" where
  "new_account u h salt = \<lparr>u_name = u, u_hash = h, u_salt = salt\<rparr>"

lemma auth_register_cases:
  obtains "us_file (snd (auth_register K A u p s)) = us_file s" "fst (auth_register K A u p s) \<noteq> None"
  | m h salt where "accounts (us_file s) = Some m" "m u = None" "u \<noteq> []"
    "hash_password K (ae_hash A) p = Inr h" "generate_salt (ae_salt A) = Inr salt"
    "fst (auth_register K A u p s) = fst (persist_users A (s\<lparr>us_users := m(u \<mapsto> new_account u h salt)\<rparr>))"
    "us_file (snd (auth_register K A u p s)) = us_file (snd (persist_users A (s\<lparr>us_users := m(u \<mapsto> new_account u h salt)\<rparr>)))"
proof (cases "fst (auth_register K A u p s) \<noteq> None \<and> us_file (snd (auth_register K A u p s)) = us_file s")
  case True
  then show ?thesis using that(1) by blast
next
  case False
  obtain r s1 where re: "reload_from_disk A s = (r, s1)" by (cases "reload_from_disk A s")
  have same: "us_file s1 = us_file s" using reload_from_disk_file [of A s] re by simp
  have pre: "u \<noteq> []" "\<not> length p < min_password_length" "r = None" "us_users s1 u = None"
    using False re same by (auto simp: auth_register_def split: if_splits option.splits)
  obtain h where h: "hash_password K (ae_hash A) p = Inr h"
    using False re same pre by (cases "hash_password K (ae_hash A) p") (simp_all add: auth_register_def)
  obtain salt where salt: "generate_salt (ae_salt A) = Inr salt"
    using False re same pre h by (cases "generate_salt (ae_salt A)") (simp_all add: auth_register_def)
  have acc: "accounts (us_file s) = Some (us_users s1)" using reload_from_disk_None re pre(3) by blast
  have "auth_register K A u p s =
      persist_users A (s1\<lparr>us_users := (us_users s1)(u \<mapsto> new_account u h salt)\<rparr>)"
    using re pre h salt by (simp add: auth_register_def new_account_def)
  moreover have "fst (persist_users A (s1\<lparr>us_users := m\<rparr>)) = fst (persist_users A (s\<lparr>us_users := m\<rparr>))
      \<and> us_file (snd (persist_users A (s1\<lparr>us_users := m\<rparr>))) = us_file (snd (persist_users A (s\<lparr>us_users := m\<rparr>)))" for m
    using same by (simp add: persist_users_def split: io.split)
  ultimately show ?thesis using that(2) [OF acc pre(4,1) h salt] by simp
qed

definition file_ok :: "user_store \<Rightarrow> bool" where
  "file_ok s \<longleftrightarrow> (\<forall>m. accounts (us_file s) = Some m \<longrightarrow> utf8_accounts m)"

text \<open>The document lists the accounts, and the new one, once each.\<close>

definition keys_ok :: "auth_env \<Rightarrow> string \<Rightarrow> user_store \<Rightarrow> bool" where
  "keys_ok A u s \<longleftrightarrow> distinct (ae_keys A) \<and> (\<forall>m. accounts (us_file s) = Some m \<longrightarrow> set (ae_keys A) = insert u (dom m))"

lemma accounts_after_write:
  assumes "accounts (us_file s) = Some m" "file_ok s" "keys_ok A u s" "coerce_utf8 u = u" "ae_io A = IoOk"
  shows "fst (persist_users A (s\<lparr>us_users := m(u \<mapsto> new_account u h salt)\<rparr>)) = None
    \<and> accounts (us_file (snd (persist_users A (s\<lparr>us_users := m(u \<mapsto> new_account u h salt)\<rparr>))))
      = Some (m(u \<mapsto> new_account u h salt))"
proof -
  have "range_order (m(u \<mapsto> new_account u h salt)) (ae_keys A)"
    using assms(1,3) by (simp add: range_order_def keys_ok_def)
  moreover have "utf8_accounts (m(u \<mapsto> new_account u h salt))"
    using assms(1,2,4) by (auto simp: file_ok_def utf8_accounts_def new_account_def)
  ultimately show ?thesis
    using assms(5) by (simp add: persist_users_def unmarshal_marshal)
qed

lemma auth_register_ok:
  assumes "auth_register K A u p s = (None, s')" "file_ok s" "keys_ok A u s" "coerce_utf8 u = u"
  obtains m h salt where "accounts (us_file s) = Some m" "m u = None"
    "hash_password K (ae_hash A) p = Inr h" "accounts (us_file s') = Some (m(u \<mapsto> new_account u h salt))"
proof (rule auth_register_cases [of K A u p s])
  assume "fst (auth_register K A u p s) \<noteq> None"
  then show ?thesis using assms(1) by simp
next
  fix m h salt
  let ?s = "s\<lparr>us_users := m(u \<mapsto> new_account u h salt)\<rparr>"
  assume m: "accounts (us_file s) = Some m" "m u = None" "hash_password K (ae_hash A) p = Inr h"
    and res: "fst (auth_register K A u p s) = fst (persist_users A ?s)"
      "us_file (snd (auth_register K A u p s)) = us_file (snd (persist_users A ?s))"
  have "ae_io A = IoOk"
    using res(1) assms(1) by (cases "ae_io A") (simp_all add: persist_users_def)
  from accounts_after_write [OF m(1) assms(2-4) this] show ?thesis
    using m res assms(1) by (intro that [of m h salt]) simp_all
qed

section \<open>The interface the HTTP server uses\<close>

text \<open>
  \<open>UserStoreIface\<close> of \<open>pkg/master/http.go\<close>: registration and login over any state, with what the
  handlers rely on. \<open>fine\<close> are circumstances in which the store can be read, \<open>ready\<close> those in
  which a name can be registered.
\<close>

locale user_store_iface =
  fixes reg :: "'a \<Rightarrow> string \<Rightarrow> string \<Rightarrow> 's \<Rightarrow> string option \<times> 's"
    and login :: "'a \<Rightarrow> string \<Rightarrow> string \<Rightarrow> 's \<Rightarrow> (string + bytes \<times> bytes) \<times> 's"
    and fine :: "'a \<Rightarrow> bool"
    and ready :: "'a \<Rightarrow> string \<Rightarrow> 's \<Rightarrow> bool"
  assumes login_after_reg: "ready A u s \<Longrightarrow> fine B \<Longrightarrow> reg A u p s = (None, s') \<Longrightarrow>
      \<exists>k salt. fst (login B u p s') = Inr (k, salt) \<and> key_size_ok k"
    and login_frame: "fst (login B u p (snd (login A v q s))) = fst (login B u p s)"
begin

lemma login_twice:
  assumes "ready A u s" "fine B" "reg A u p s = (None, s')"
  shows "\<exists>k salt. fst (login B u p s') = Inr (k, salt) \<and> key_size_ok k
    \<and> fst (login B u p (snd (login C v q s'))) = Inr (k, salt)"
  using login_after_reg [OF assms] login_frame by metis

end

lemma auth_login_memory:
  "us_file t = us_file s \<Longrightarrow> fst (auth_login K B u p t) = fst (auth_login K B u p s)"
proof -
  assume f: "us_file t = us_file s"
  have "fst (reload_from_disk B t) = fst (reload_from_disk B s)"
    and "fst (reload_from_disk B s) = None \<Longrightarrow> us_users (snd (reload_from_disk B t)) = us_users (snd (reload_from_disk B s))"
    using f by (auto simp: reload_from_disk_def split: option.splits users_doc.splits)
  then show ?thesis
    by (auto simp: auth_login_def split: prod.splits option.splits)
qed

lemma login_after_auth_register:
  assumes "kdf_ok K" "auth_register K A u p s = (None, s')" "file_ok s" "keys_ok A u s" "coerce_utf8 u = u"
    and "ae_read B = None"
  shows "\<exists>salt. fst (auth_login K B u p s') = Inr (derive_key K p salt, salt)"
proof -
  obtain m h salt where a: "accounts (us_file s) = Some m" "m u = None"
    "hash_password K (ae_hash A) p = Inr h" "accounts (us_file s') = Some (m(u \<mapsto> new_account u h salt))"
    by (rule auth_register_ok [OF assms(2-5)])
  have "check_password K h p" by (rule check_hash_password [OF assms(1) a(3)])
  then show ?thesis using a(4) by (simp add: auth_login_eq [OF assms(6)] new_account_def)
qed

interpretation auth: user_store_iface "auth_register K" "auth_login K" "\<lambda>B. ae_read B = None"
  "\<lambda>A u s. kdf_ok K \<and> file_ok s \<and> keys_ok A u s \<and> coerce_utf8 u = u" for K
proof
  show "\<exists>k salt. fst (auth_login K B u p s') = Inr (k, salt) \<and> key_size_ok k"
    if "kdf_ok K \<and> file_ok s \<and> keys_ok A u s \<and> coerce_utf8 u = u" "ae_read B = None" "auth_register K A u p s = (None, s')"
    for A u s B p s'
    using login_after_auth_register [of K A u p s s' B] that derive_key_size [of K] by blast
  show "fst (auth_login K B u p (snd (auth_login K A v q s))) = fst (auth_login K B u p s)" for A B u p v q s
    by (rule auth_login_memory) (rule auth_login_file)
qed

section \<open>Properties\<close>

definition example_auth_env :: auth_env where
  "example_auth_env = \<lparr>ae_read = None, ae_hash = [1, 2, 3], ae_salt = Inr (replicate 16 9), ae_io = IoOk,
     ae_left = Blank, ae_keys = [''bob'']\<rparr>"

definition no_users :: user_store where
  "no_users = \<lparr>us_file = Absent, us_users = Map.empty\<rparr>"

lemma example_register:
  "auth_register toy_kdf example_auth_env ''bob'' ''longsecret'' no_users
    = (None, \<lparr>us_file = Doc [(''bob'', new_account ''bob'' ([1, 2, 3] @ string_bytes ''longsecret'') (replicate 16 9))],
        us_users = [''bob'' \<mapsto> new_account ''bob'' ([1, 2, 3] @ string_bytes ''longsecret'') (replicate 16 9)]\<rparr>)"
  by (simp add: auth_register_def min_password_length_def reload_from_disk_def no_users_def hash_password_def toy_kdf_def
      generate_salt_def example_auth_env_def persist_users_def marshal_users_def coerce_utf8_ascii new_account_def)

lemma example_ready: "file_ok no_users" "keys_ok example_auth_env ''bob'' no_users" "coerce_utf8 ''bob'' = ''bob''"
  by (simp_all add: file_ok_def no_users_def utf8_accounts_def keys_ok_def example_auth_env_def coerce_utf8_ascii)

text \<open>Claim C14. After a registration that reported success, a login with the same password succeeds in every
  process that shares the file, whatever that process has in memory, and always delivers the same
  vault key; the outcome of every other user's login is what it was before.\<close>

theorem register_then_login:
  assumes "kdf_ok K" "auth_register K A u p s = (None, s')" "file_ok s" "keys_ok A u s" "coerce_utf8 u = u"
    and "us_file t = us_file s'"
  shows "\<exists>salt. \<forall>B. ae_read B = None \<longrightarrow>
    fst (auth_login K B u p t) = Inr (derive_key K p salt, salt)
    \<and> (\<forall>u' q. u' \<noteq> u \<longrightarrow> fst (auth_login K B u' q t) = fst (auth_login K B u' q s))"
proof -
  obtain m h salt where a: "accounts (us_file s) = Some m" "m u = None"
    "hash_password K (ae_hash A) p = Inr h" "accounts (us_file s') = Some (m(u \<mapsto> new_account u h salt))"
    by (rule auth_register_ok [OF assms(2-5)])
  have "check_password K h p" by (rule check_hash_password [OF assms(1) a(3)])
  then show ?thesis
    using a assms(6) by (intro exI [of _ salt]) (simp add: auth_login_eq new_account_def)
qed

theorem register_then_login_witness:
  "\<exists>salt. \<forall>B. ae_read B = None \<longrightarrow>
    fst (auth_login toy_kdf B ''bob'' ''longsecret''
        \<lparr>us_file = us_file (snd (auth_register toy_kdf example_auth_env ''bob'' ''longsecret'' no_users)), us_users = Map.empty\<rparr>)
      = Inr (derive_key toy_kdf ''longsecret'' salt, salt)"
  using register_then_login [OF toy_kdf_ok example_register example_ready,
      of "\<lparr>us_file = us_file (snd (auth_register toy_kdf example_auth_env ''bob'' ''longsecret'' no_users)), us_users = Map.empty\<rparr>"]
  by (simp add: example_register) blast

text \<open>Claim C15. A registration never changes an existing account: unless the write of the file is torn,
  every account on file is still there afterwards, unchanged, and when the registration reports an
  error the file is as it was.\<close>

theorem accounts_are_never_overwritten:
  assumes "accounts (us_file s) = Some m" "file_ok s" "keys_ok A u s" "coerce_utf8 u = u"
    and "\<forall>err. ae_io A \<noteq> IoTorn err"
  shows "(\<exists>m'. accounts (us_file (snd (auth_register K A u p s))) = Some m' \<and> m \<subseteq>\<^sub>m m')
    \<and> (fst (auth_register K A u p s) \<noteq> None \<longrightarrow> us_file (snd (auth_register K A u p s)) = us_file s)"
proof (rule auth_register_cases [of K A u p s])
  assume "us_file (snd (auth_register K A u p s)) = us_file s"
  then show ?thesis using assms(1) by simp
next
  fix m' h salt
  let ?s = "s\<lparr>us_users := m'(u \<mapsto> new_account u h salt)\<rparr>"
  assume a: "accounts (us_file s) = Some m'" "m' u = None"
    and res: "fst (auth_register K A u p s) = fst (persist_users A ?s)"
      "us_file (snd (auth_register K A u p s)) = us_file (snd (persist_users A ?s))"
  have m: "m' = m" using a(1) assms(1) by simp
  show ?thesis
  proof (cases "ae_io A")
    case IoOk
    have "m \<subseteq>\<^sub>m m(u \<mapsto> new_account u h salt)" using a(2) by (auto simp: m map_le_def)
    then show ?thesis
      using accounts_after_write [OF a(1) assms(2-4) IoOk, of h salt] res by (simp add: m)
  next
    case (IoFail err)
    then show ?thesis using res assms(1) by (simp add: persist_users_def)
  next
    case (IoTorn err)
    then show ?thesis using assms(5) by blast
  qed
qed

theorem accounts_are_never_overwritten_witness:
  "us_file (snd (auth_register toy_kdf (example_auth_env\<lparr>ae_io := IoFail ''full''\<rparr>) ''bob'' ''longsecret'' no_users)) = Absent"
proof -
  have "fst (auth_register toy_kdf (example_auth_env\<lparr>ae_io := IoFail ''full''\<rparr>) ''bob'' ''longsecret'' no_users) \<noteq> None"
    by (simp add: auth_register_def min_password_length_def reload_from_disk_def no_users_def hash_password_def toy_kdf_def
      generate_salt_def example_auth_env_def persist_users_def)
  moreover have "keys_ok (example_auth_env\<lparr>ae_io := IoFail ''full''\<rparr>) ''bob'' no_users"
    using example_ready(2) by (simp add: keys_ok_def)
  ultimately show ?thesis
    using accounts_are_never_overwritten [of no_users Map.empty "example_auth_env\<lparr>ae_io := IoFail ''full''\<rparr>" "''bob''" toy_kdf "''longsecret''"]
      example_ready by (simp add: example_auth_env_def) (simp add: no_users_def)
qed

text \<open>Claim C21. When the write of a registration is interrupted after the file has been truncated, every
  account is gone without an error: the empty file counts as one without users, so every login is
  answered that there is no such user, and the names can be taken again.\<close>

theorem interrupted_registration_forgets_everyone:
  assumes "accounts (us_file s) = Some m" "m u = None" "u \<noteq> []" "8 \<le> length p"
    and "ae_read A = None" "hash_password K (ae_hash A) p = Inr h" "ae_salt A = Inr r"
    and "ae_io A = IoTorn err" "ae_left A = Blank"
  shows "\<exists>s'. auth_register K A u p s = (Some err, s')
    \<and> (\<forall>B v q. ae_read B = None \<longrightarrow> fst (auth_login K B v q s') = Inl ''user not found'')
    \<and> (\<forall>B v q h'. ae_read B = None \<and> v \<noteq> [] \<and> 8 \<le> length q \<and> hash_password K (ae_hash B) q = Inr h'
          \<and> ae_salt B = Inr r \<and> ae_io B = IoOk \<longrightarrow> fst (auth_register K B v q s') = None)"
proof -
  have "auth_register K A u p s = (Some err, s\<lparr>us_file := Blank, us_users := m(u \<mapsto> \<lparr>u_name = u, u_hash = h, u_salt = take 16 r\<rparr>)\<rparr>)"
    using assms by (simp add: auth_register_def min_password_length_def reload_from_disk_eq persist_users_def generate_salt_def)
  moreover have "fst (auth_register K B v q (s\<lparr>us_file := Blank, us_users := m'\<rparr>)) = None"
    if "ae_read B = None \<and> v \<noteq> [] \<and> 8 \<le> length q \<and> hash_password K (ae_hash B) q = Inr h'
          \<and> ae_salt B = Inr r \<and> ae_io B = IoOk" for B v q h' m'
    using that by (simp add: auth_register_def min_password_length_def reload_from_disk_eq persist_users_def generate_salt_def)
  moreover have "fst (auth_login K B v q (s\<lparr>us_file := Blank, us_users := m'\<rparr>)) = Inl ''user not found''"
    if "ae_read B = None" for B v q m'
    using that by (simp add: auth_login_eq)
  ultimately show ?thesis by blast
qed

theorem interrupted_registration_forgets_everyone_witness:
  "\<exists>s'. auth_register toy_kdf (example_auth_env\<lparr>ae_io := IoTorn ''crash''\<rparr>) ''eve'' ''longsecret''
        (snd (auth_register toy_kdf example_auth_env ''bob'' ''longsecret'' no_users)) = (Some ''crash'', s')
    \<and> fst (auth_login toy_kdf example_auth_env ''bob'' ''longsecret'' s') = Inl ''user not found''"
proof -
  let ?s = "snd (auth_register toy_kdf example_auth_env ''bob'' ''longsecret'' no_users)"
  let ?A = "example_auth_env\<lparr>ae_io := IoTorn ''crash''\<rparr>"
  have "accounts (us_file ?s) = Some [''bob'' \<mapsto> new_account ''bob'' ([1, 2, 3] @ string_bytes ''longsecret'') (replicate 16 9)]"
    by (simp add: example_register unmarshal_users_def)
  then have "\<exists>s'. auth_register toy_kdf ?A ''eve'' ''longsecret'' ?s = (Some ''crash'', s')
    \<and> (\<forall>B v q. ae_read B = None \<longrightarrow> fst (auth_login toy_kdf B v q s') = Inl ''user not found'')
    \<and> (\<forall>B v q h'. ae_read B = None \<and> v \<noteq> [] \<and> 8 \<le> length q \<and> hash_password toy_kdf (ae_hash B) q = Inr h'
          \<and> ae_salt B = Inr (replicate 16 9) \<and> ae_io B = IoOk \<longrightarrow> fst (auth_register toy_kdf B v q s') = None)"
    by (rule interrupted_registration_forgets_everyone [where h = "[1, 2, 3] @ string_bytes ''longsecret''"])
       (simp_all add: example_auth_env_def hash_password_def toy_kdf_def)
  then show ?thesis by (auto simp: example_auth_env_def)
qed

end
