(* ===== verification/Http_Api.thy ===== *)
theory Http_Api
  imports Vault Auth
begin

text \<open>
  The REST API of the master process (\<open>pkg/master/http.go\<close>): the session store, the middleware,
  one definition per handler and the routing. The user store is used through its interface, as
  a pair of functions \<open>reg\<close> and \<open>login\<close> over any state. A request is what \<open>net/http\<close> delivers: the
  method, the cleaned path, the \<open>Origin\<close> header, the session cookie, the \<open>site\<close> parameter (empty
  when absent) and the bytes of the body, which the handlers decode as JSON.
\<close>

section \<open>Requests and responses\<close>

record request =
  rq_method :: string
  rq_path :: string
  rq_origin :: string
  rq_cookie :: "string option"
  rq_site :: string
  rq_body :: string

datatype payload =
    Empty
  | Static
  | Message string
  | Failure string
  | Logged_in string bytes
  | Sites "string list"
  | Entry password_entry
  | Health nat

datatype cookie = Keep_cookie | Set_cookie string | Clear_cookie

record response =
  rs_status :: nat
  rs_cookie :: cookie
  rs_payload :: payload

text \<open>The circumstances of a request: the clock, the user store's own, the random bytes for a session and
  for a nonce, and the environments of the requests to the cluster.\<close>

record 'a http_env =
  he_now :: time
  he_auth :: 'a
  he_rand :: bytes
  he_nonce :: "string + bytes"
  he_net :: "nat \<Rightarrow> env"

definition json_ok_reply :: "payload \<Rightarrow> response" where
  "json_ok_reply p = \<lparr>rs_status = 200, rs_cookie = Keep_cookie, rs_payload = p\<rparr>"

definition json_error :: "string \<Rightarrow> nat \<Rightarrow> response" where
  "json_error msg code = \<lparr>rs_status = code, rs_cookie = Keep_cookie, rs_payload = Failure msg\<rparr>"

section \<open>Sessions\<close>

record session =
  hs_user :: string
  hs_key :: bytes
  hs_created :: time

type_synonym sessions = "string \<rightharpoonup> session"

definition hex_string :: "bytes \<Rightarrow> string" where
  "hex_string b = concat (map (\<lambda>x. hex02 (unat x)) b)"

lemma length_hex_string: "length (hex_string b) = 2 * length b"
proof (induction b)
  case (Cons x b)
  have "unat x < 256" using unsigned_less [of x] by simp
  then show ?case using Cons by (simp add: hex_string_def hex02_byte)
qed (simp add: hex_string_def)

definition session_create :: "time \<Rightarrow> bytes \<Rightarrow> string \<Rightarrow> bytes \<Rightarrow> sessions \<Rightarrow> string \<times> sessions" where
  "session_create now rnd username vaultKey ss =
    (let sid = hex_string (take 16 rnd)
     in (sid, ss(sid \<mapsto> \<lparr>hs_user = username, hs_key = vaultKey, hs_created = now\<rparr>)))"

definition session_get :: "string \<Rightarrow> sessions \<Rightarrow> session option" where
  "session_get sid ss = ss sid"

definition session_delete :: "string \<Rightarrow> sessions \<Rightarrow> sessions" where
  "session_delete sid ss = ss(sid := None)"

text \<open>One round of the goroutine of \<open>newSessionStore\<close>.\<close>

definition session_reap :: "time \<Rightarrow> sessions \<Rightarrow> sessions" where
  "session_reap now ss = (\<lambda>sid. case ss sid of
      Some sess \<Rightarrow> if now - hs_created sess > 24 * hour then None else Some sess | None \<Rightarrow> None)"

section \<open>Handlers\<close>

record 'u http_state =
  ht_users :: 'u
  ht_sessions :: sessions
  ht_world :: world

type_synonym 'u handler = "request \<Rightarrow> 'u http_state \<Rightarrow> response \<times> 'u http_state"

definition require_session :: "(session \<Rightarrow> 'u handler) \<Rightarrow> 'u handler" where
  "require_session next r s =
    (case rq_cookie r of
       None \<Rightarrow> (json_error ''not authenticated'' 401, s)
     | Some sid \<Rightarrow>
         (case session_get sid (ht_sessions s) of
            None \<Rightarrow> (json_error ''session expired'' 401, s)
          | Some sess \<Rightarrow> next sess r s))"

text \<open>\<open>json.NewDecoder(r.Body).Decode\<close> into a struct with the given fields.\<close>

definition decode_body :: "string list \<Rightarrow> request \<Rightarrow> (string \<Rightarrow> string) option" where
  "decode_body names r = decode_struct names (bytes_of (rq_body r))"

definition http_register :: "(string \<Rightarrow> string \<Rightarrow> 'u \<Rightarrow> string option \<times> 'u) \<Rightarrow> 'u handler" where
  "http_register reg r s =
    (case decode_body [''username'', ''password''] r of
       None \<Rightarrow> (json_error ''username and password required'' 400, s)
     | Some f \<Rightarrow>
         if f ''username'' = [] \<or> f ''password'' = [] then (json_error ''username and password required'' 400, s)
         else if length (f ''password'') < 8 then (json_error ''password must be at least 8 characters'' 400, s)
         else
           (case reg (f ''username'') (f ''password'') (ht_users s) of
              (Some err, us) \<Rightarrow> (json_error err 409, s\<lparr>ht_users := us\<rparr>)
            | (None, us) \<Rightarrow> (json_ok_reply (Message ''registered successfully''), s\<lparr>ht_users := us\<rparr>)))"

definition http_login ::
  "(string \<Rightarrow> string \<Rightarrow> 'u \<Rightarrow> (string + bytes \<times> bytes) \<times> 'u) \<Rightarrow> 'a http_env \<Rightarrow> 'u handler" where
  "http_login login A r s =
    (case decode_body [''username'', ''password''] r of
       None \<Rightarrow> (json_error ''invalid request body'' 400, s)
     | Some f \<Rightarrow>
         (case login (f ''username'') (f ''password'') (ht_users s) of
            (Inl _, us) \<Rightarrow> (json_error ''invalid credentials'' 401, s\<lparr>ht_users := us\<rparr>)
          | (Inr (vaultKey, salt), us) \<Rightarrow>
              let (sid, ss) = session_create (he_now A) (he_rand A) (f ''username'') vaultKey (ht_sessions s)
              in ((json_ok_reply (Logged_in (f ''username'') salt))\<lparr>rs_cookie := Set_cookie sid\<rparr>,
                  s\<lparr>ht_users := us, ht_sessions := ss\<rparr>)))"

definition http_logout :: "'u handler" where
  "http_logout r s =
    ((json_ok_reply (Message ''logged out''))\<lparr>rs_cookie := Clear_cookie\<rparr>,
     (case rq_cookie r of None \<Rightarrow> s | Some sid \<Rightarrow> s\<lparr>ht_sessions := session_delete sid (ht_sessions s)\<rparr>))"

definition new_vault_client :: "session \<Rightarrow> vclient" where
  "new_vault_client sess = \<lparr>vc_key = hs_key sess, vc_user = hs_user sess\<rparr>"

definition http_list :: "'a http_env \<Rightarrow> session \<Rightarrow> 'u handler" where
  "http_list A sess r s =
    (case vault_list (he_net A 0) (new_vault_client sess) (ht_world s) of
       (Inl err, w) \<Rightarrow> (json_error err 500, s\<lparr>ht_world := w\<rparr>)
     | (Inr sites, w) \<Rightarrow> (json_ok_reply (Sites sites), s\<lparr>ht_world := w\<rparr>))"

definition http_get :: "'a http_env \<Rightarrow> session \<Rightarrow> 'u handler" where
  "http_get A sess r s =
    (if rq_site r = [] then (json_error ''site query param required'' 400, s)
     else
       (case vault_get (he_net A) (new_vault_client sess) (rq_site r) (ht_world s) of
          (Inl err, w) \<Rightarrow> (json_error err 404, s\<lparr>ht_world := w\<rparr>)
        | (Inr entry, w) \<Rightarrow> (json_ok_reply (Entry entry), s\<lparr>ht_world := w\<rparr>)))"

definition http_save :: "'a http_env \<Rightarrow> session \<Rightarrow> 'u handler" where
  "http_save A sess r s =
    (case decode_body [''site'', ''username'', ''password''] r of
       None \<Rightarrow> (json_error ''site, username and password required'' 400, s)
     | Some f \<Rightarrow>
         if f ''site'' = [] \<or> f ''username'' = [] \<or> f ''password'' = []
         then (json_error ''site, username and password required'' 400, s)
         else
           (case vault_save (he_nonce A) (he_net A) (new_vault_client sess)
                   \<lparr>pe_site = f ''site'', pe_username = f ''username'', pe_password = f ''password''\<rparr> (ht_world s) of
              (Some err, w) \<Rightarrow> (json_error err 500, s\<lparr>ht_world := w\<rparr>)
            | (None, w) \<Rightarrow> (json_ok_reply (Message ''saved''), s\<lparr>ht_world := w\<rparr>)))"

definition http_delete :: "'a http_env \<Rightarrow> session \<Rightarrow> 'u handler" where
  "http_delete A sess r s =
    (let site = (if rq_site r = [] then (case decode_body [''site''] r of Some f \<Rightarrow> f ''site'' | None \<Rightarrow> []) else rq_site r)
     in if site = [] then (json_error ''site required (query param or JSON body)'' 400, s)
        else
          (case vault_delete (he_net A) (new_vault_client sess) site (ht_world s) of
             (Some err, w) \<Rightarrow> (json_error err 500, s\<lparr>ht_world := w\<rparr>)
           | (None, w) \<Rightarrow> (json_ok_reply (Message ''deleted''), s\<lparr>ht_world := w\<rparr>)))"

text \<open>\<open>RegistryProbe\<close> counts the servers of the master's registry that are alive.\<close>

definition registry_probe :: "env \<Rightarrow> world \<Rightarrow> nat" where
  "registry_probe en w =
    (case w_master w of None \<Rightarrow> 0 | Some m \<Rightarrow> length (alive_chunks (en_ids en) (ms_registry m)))"

definition http_health :: "'a http_env \<Rightarrow> 'u handler" where
  "http_health A r s = (json_ok_reply (Health (registry_probe (he_net A 0) (ht_world s))), s)"

section \<open>Routing\<close>

datatype endpoint = Ep_register | Ep_login | Ep_logout | Ep_list | Ep_get | Ep_save | Ep_delete | Ep_health

definition routes :: "(string \<times> string \<times> endpoint) list" where
  "routes =
    [(''POST'', ''/auth/register'', Ep_register), (''POST'', ''/auth/login'', Ep_login),
     (''POST'', ''/auth/logout'', Ep_logout), (''GET'', ''/vault/list'', Ep_list),
     (''GET'', ''/vault/get'', Ep_get), (''POST'', ''/vault/save'', Ep_save),
     (''DELETE'', ''/vault/delete'', Ep_delete), (''GET'', ''/health'', Ep_health)]"

fun run_endpoint ::
  "('a \<Rightarrow> string \<Rightarrow> string \<Rightarrow> 'u \<Rightarrow> string option \<times> 'u) \<Rightarrow> ('a \<Rightarrow> string \<Rightarrow> string \<Rightarrow> 'u \<Rightarrow> (string + bytes \<times> bytes) \<times> 'u)
    \<Rightarrow> 'a http_env \<Rightarrow> endpoint \<Rightarrow> 'u handler" where
  "run_endpoint reg login A Ep_register = http_register (reg (he_auth A))"
| "run_endpoint reg login A Ep_login = http_login (login (he_auth A)) A"
| "run_endpoint reg login A Ep_logout = http_logout"
| "run_endpoint reg login A Ep_list = require_session (http_list A)"
| "run_endpoint reg login A Ep_get = require_session (http_get A)"
| "run_endpoint reg login A Ep_save = require_session (http_save A)"
| "run_endpoint reg login A Ep_delete = require_session (http_delete A)"
| "run_endpoint reg login A Ep_health = http_health A"

text \<open>A pattern with \<open>GET\<close> also matches \<open>HEAD\<close>. With a static directory every other request is
  answered from it; without one it is an error of the multiplexer.\<close>

definition matches :: "request \<Rightarrow> string \<times> string \<times> endpoint \<Rightarrow> bool" where
  "matches r = (\<lambda>(m, p, _). rq_path r = p \<and> (rq_method r = m \<or> m = ''GET'' \<and> rq_method r = ''HEAD''))"

definition serve ::
  "('a \<Rightarrow> string \<Rightarrow> string \<Rightarrow> 'u \<Rightarrow> string option \<times> 'u) \<Rightarrow> ('a \<Rightarrow> string \<Rightarrow> string \<Rightarrow> 'u \<Rightarrow> (string + bytes \<times> bytes) \<times> 'u)
    \<Rightarrow> bool \<Rightarrow> 'a http_env \<Rightarrow> 'u handler" where
  "serve reg login static A r s =
    (case find (matches r) routes of
       Some (_, _, ep) \<Rightarrow> run_endpoint reg login A ep r s
     | None \<Rightarrow>
         if static then (\<lparr>rs_status = 200, rs_cookie = Keep_cookie, rs_payload = Static\<rparr>, s)
         else if \<exists>(_, p, _) \<in> set routes. rq_path r = p
         then (\<lparr>rs_status = 405, rs_cookie = Keep_cookie, rs_payload = Empty\<rparr>, s)
         else (\<lparr>rs_status = 404, rs_cookie = Keep_cookie, rs_payload = Empty\<rparr>, s))"

text \<open>The outermost layer: the header that allows the caller's origin, and preflight requests.\<close>

definition cors_middleware :: "'u handler \<Rightarrow> request \<Rightarrow> 'u http_state \<Rightarrow> (string \<times> response) \<times> 'u http_state" where
  "cors_middleware next r s =
    (let origin = (if rq_origin r = [] then ''*'' else rq_origin r)
     in if rq_method r = ''OPTIONS''
        then ((origin, \<lparr>rs_status = 204, rs_cookie = Keep_cookie, rs_payload = Empty\<rparr>), s)
        else let (resp, s) = next r s in ((origin, resp), s))"

section \<open>What a request can change in the cluster\<close>

lemma entries_call_chunk_read:
  assumes "m \<in> {ReadRequest k, ListKeysRequest k}"
  shows "entries_at (snd (call_chunk en a m w)) = entries_at w"
proof (cases "w_chunks w a")
  case None
  then show ?thesis by (simp add: call_chunk_def)
next
  case (Some srv)
  have "entries_at (snd (chunk_at en a m w)) = entries_at w"
    using assms Some by (auto simp: chunk_at_def leaf_at_def entries_at_def fun_eq_iff)
  then show ?thesis
    using rpc_state [of "en_fate en a" "chunk_at en a m" w] Some by (auto simp: call_chunk_def)
qed

lemma entries_after_op_other:
  assumes "k \<noteq> op_key x"
  shows "entries_at (after_op en a x w) b k = entries_at w b k"
proof -
  have "entries_at (after_op en a x w) b = entries_at w b \<or> entries_at (after_op en a x w) b = lww x (entries_at w b)"
    using after_op_any [of w a en x b] after_op_down [of w a en x b] by blast
  then show ?thesis using assms by auto
qed

lemma entries_call_chunk_change:
  assumes "m \<in> {WriteRequest key v n, DeleteRequest key n}" "k \<noteq> key"
  shows "entries_at (snd (call_chunk en a m w)) b k = entries_at w b k"
proof (cases "w_chunks w a")
  case None
  then show ?thesis by (simp add: call_chunk_def)
next
  case (Some srv)
  have "entries_at (snd (chunk_at en a m w)) b k = entries_at w b k"
    using assms entries_after_op_other [of k "put_op key v n" en a w b] entries_after_op_other [of k "delete_op key n" en a w b]
    by (auto simp: handle_write_after_op handle_delete_after_op)
  then show ?thesis
    using rpc_state [of "en_fate en a" "chunk_at en a m" w] Some by (auto simp: call_chunk_def)
qed

lemma get_primary_state: "snd (get_primary ask_master k w) = snd (ask_master (GetPrimaryRequest k) w)"
  by (simp add: get_primary_def split: prod.split rpc_result.split msg.split)

lemma get_chunk_addr_state: "snd (get_chunk_addr ask_master k w) = snd (ask_master (GetChunkRequest k) w)"
  by (simp add: get_chunk_addr_def split: prod.split rpc_result.split msg.split)

lemma entries_get_primary: "entries_at (snd (get_primary (call_master en) k w)) = entries_at w"
  by (simp add: get_primary_state frame_simps)

lemma entries_get_chunk_addr: "entries_at (snd (get_chunk_addr (call_master en) k w)) = entries_at w"
  by (simp add: get_chunk_addr_state frame_simps)

lemma entries_notify: "entries_at (notify_master_wal (call_master en) k v n d w) = entries_at w"
  by (simp add: notify_master_wal_def frame_simps)

lemma entries_vault_save:
  assumes "k \<noteq> entry_key c (pe_site e)"
  shows "entries_at (snd (vault_save rnd es c e w)) b k = entries_at w b k"
proof (cases "encrypt rnd (vc_key c) (marshal_entry e)")
  case (Inl err)
  then show ?thesis by (simp add: vault_save_def)
next
  case (Inr ct)
  obtain q w1 where q: "get_primary (call_master (es 0)) (entry_key c (pe_site e)) w = (q, w1)" by fastforce
  have w1: "entries_at w1 = entries_at w" using entries_get_primary [of "es 0" "entry_key c (pe_site e)" w] q by simp
  show ?thesis
  proof (cases q)
    case (Inl err)
    then show ?thesis using Inr q w1 by (simp add: vault_save_def Let_def)
  next
    case ans: (Inr t)
    obtain p rs n where t: "t = (p, rs, n)" by (cases t)
    obtain r w2 where c: "call_chunk (es 1) p (WriteRequest (entry_key c (pe_site e)) ct n) w1 = (r, w2)" by fastforce
    have "entries_at w2 b k = entries_at w1 b k"
      using entries_call_chunk_change [of _ "entry_key c (pe_site e)" ct n k "es 1" p w1 b] c assms
      by (metis insertI1 snd_conv)
    then show ?thesis
      using Inr q ans t c w1
      by (simp add: vault_save_def Let_def entries_notify split: rpc_result.split msg.split)
  qed
qed

lemma entries_vault_delete:
  assumes "k \<noteq> entry_key c site"
  shows "entries_at (snd (vault_delete es c site w)) b k = entries_at w b k"
proof -
  obtain q w1 where q: "get_primary (call_master (es 0)) (entry_key c site) w = (q, w1)" by fastforce
  have w1: "entries_at w1 = entries_at w" using entries_get_primary [of "es 0" "entry_key c site" w] q by simp
  show ?thesis
  proof (cases q)
    case (Inl err)
    then show ?thesis using q w1 by (simp add: vault_delete_def Let_def)
  next
    case ans: (Inr t)
    obtain p rs n where t: "t = (p, rs, n)" by (cases t)
    obtain r w2 where c: "call_chunk (es 1) p (DeleteRequest (entry_key c site) n) w1 = (r, w2)" by fastforce
    have "entries_at w2 b k = entries_at w1 b k"
      using entries_call_chunk_change [of _ "entry_key c site" "[]" n k "es 1" p w1 b] c assms
      by (metis insertI1 insertI2 snd_conv)
    then show ?thesis
      using q ans t c w1
      by (simp add: vault_delete_def Let_def entries_notify split: rpc_result.split msg.split)
  qed
qed

lemma entries_vault_get: "entries_at (snd (vault_get es c site w)) = entries_at w"
proof -
  obtain q w1 where q: "get_chunk_addr (call_master (es 0)) (entry_key c site) w = (q, w1)" by fastforce
  have w1: "entries_at w1 = entries_at w" using entries_get_chunk_addr [of "es 0" "entry_key c site" w] q by simp
  show ?thesis
  proof (cases q)
    case (Inl err)
    then show ?thesis using q w1 by (simp add: vault_get_def Let_def)
  next
    case ans: (Inr a)
    obtain r w2 where c: "call_chunk (es 1) a (ReadRequest (entry_key c site)) w1 = (r, w2)" by fastforce
    have "entries_at w2 = entries_at w1"
      using entries_call_chunk_read [of "ReadRequest (entry_key c site)" "entry_key c site" "es 1" a w1] c by simp
    then show ?thesis
      using q ans c w1 by (simp add: vault_get_def Let_def split: rpc_result.split msg.split)
  qed
qed

lemma entries_vault_list: "entries_at (snd (vault_list en c w)) = entries_at w"
proof -
  have "snd (vault_list en c w) = snd (call_master en (ListKeysRequest (vc_user c @ ''/'')) w)"
    by (simp add: vault_list_def Let_def split: prod.split rpc_result.split msg.split)
  then show ?thesis by (simp add: frame_simps)
qed

text \<open>One endpoint: a request changes only entries under the name of its session's user.\<close>

definition session_of :: "request \<Rightarrow> 'u http_state \<Rightarrow> session option" where
  "session_of r s = (case rq_cookie r of None \<Rightarrow> None | Some sid \<Rightarrow> session_get sid (ht_sessions s))"

lemma require_session_eq:
  "require_session next r s =
    (case session_of r s of
       Some sess \<Rightarrow> next sess r s
     | None \<Rightarrow> (json_error (if rq_cookie r = None then ''not authenticated'' else ''session expired'') 401, s))"
  by (simp add: require_session_def session_of_def split: option.split)

lemma entry_key_prefix [simp]: "has_prefix (entry_key (new_vault_client sess) site) (hs_user sess @ ''/'')"
  by (simp add: entry_key_def new_vault_client_def has_prefix_def)

lemma http_save_entries:
  "\<not> has_prefix k (hs_user sess @ ''/'') \<Longrightarrow>
    entries_at (ht_world (snd (http_save A sess r s))) b k = entries_at (ht_world s) b k"
proof -
  assume k: "\<not> has_prefix k (hs_user sess @ ''/'')"
  then have "k \<noteq> entry_key (new_vault_client sess) site" for site by auto
  then have "entries_at (snd (vault_save rnd es (new_vault_client sess) e w)) b k = entries_at w b k" for rnd es e w
    by (rule entries_vault_save)
  then show ?thesis
    by (auto simp: http_save_def split: prod.splits option.splits) (metis snd_conv)+
qed

lemma http_delete_entries:
  "\<not> has_prefix k (hs_user sess @ ''/'') \<Longrightarrow>
    entries_at (ht_world (snd (http_delete A sess r s))) b k = entries_at (ht_world s) b k"
proof -
  assume k: "\<not> has_prefix k (hs_user sess @ ''/'')"
  then have "k \<noteq> entry_key (new_vault_client sess) site" for site by auto
  then have e: "entries_at (snd (vault_delete es (new_vault_client sess) site w)) b k = entries_at w b k" for es site w
    by (rule entries_vault_delete)
  define site where "site = (if rq_site r = [] then (case decode_body [''site''] r of Some f \<Rightarrow> f ''site'' | None \<Rightarrow> []) else rq_site r)"
  obtain q w where q: "vault_delete (he_net A) (new_vault_client sess) site (ht_world s) = (q, w)" by fastforce
  have "ht_world (snd (http_delete A sess r s)) \<in> {ht_world s, w}"
    unfolding http_delete_def site_def [symmetric] by (simp add: q Let_def split: option.split)
  then show ?thesis using e [of "he_net A" site "ht_world s"] q by auto
qed

lemma http_get_entries: "entries_at (ht_world (snd (http_get A sess r s))) = entries_at (ht_world s)"
  using entries_vault_get [of "he_net A" "new_vault_client sess" "rq_site r" "ht_world s"]
  by (auto simp: http_get_def split: prod.split sum.split)

lemma http_list_entries: "entries_at (ht_world (snd (http_list A sess r s))) = entries_at (ht_world s)"
  using entries_vault_list [of "he_net A 0" "new_vault_client sess" "ht_world s"]
  by (auto simp: http_list_def split: prod.split sum.split)

lemma http_auth_world [frame_simps]:
  "ht_world (snd (http_register reg' r s)) = ht_world s" "ht_world (snd (http_login login' A r s)) = ht_world s"
  "ht_world (snd (http_logout r s)) = ht_world s" "ht_world (snd (http_health A r s)) = ht_world s"
  by (simp_all add: http_register_def http_login_def http_logout_def http_health_def session_create_def Let_def
      split: prod.split option.split sum.split)

lemma run_endpoint_entries:
  assumes "\<forall>sess. session_of r s = Some sess \<longrightarrow> \<not> has_prefix k (hs_user sess @ ''/'')"
  shows "entries_at (ht_world (snd (run_endpoint reg login A ep r s))) b k = entries_at (ht_world s) b k"
  using assms
  by (cases ep) (auto simp: frame_simps require_session_eq http_save_entries http_delete_entries http_get_entries
      http_list_entries split: option.split)

section \<open>What a request can change in the sessions\<close>

lemma vault_handlers_sessions [frame_simps]:
  "ht_sessions (snd (http_save A sess r s)) = ht_sessions s" "ht_sessions (snd (http_delete A sess r s)) = ht_sessions s"
  "ht_sessions (snd (http_get A sess r s)) = ht_sessions s" "ht_sessions (snd (http_list A sess r s)) = ht_sessions s"
  "ht_sessions (snd (http_register reg' r s)) = ht_sessions s" "ht_sessions (snd (http_health A r s)) = ht_sessions s"
  by (simp_all add: http_save_def http_delete_def http_get_def http_list_def http_register_def http_health_def Let_def
      split: prod.split option.split sum.split)

lemma require_session_sessions [frame_simps]:
  "(\<And>sess. ht_sessions (snd (next sess r s)) = ht_sessions s) \<Longrightarrow> ht_sessions (snd (require_session next r s)) = ht_sessions s"
  by (simp add: require_session_def split: option.split)

lemma serve_sessions:
  "sid \<noteq> hex_string (take 16 (he_rand A)) \<Longrightarrow> rq_path r \<noteq> ''/auth/logout'' \<or> rq_cookie r \<noteq> Some sid
    \<Longrightarrow> ht_sessions (snd (serve reg login static A r s)) sid = ht_sessions s sid"
proof -
  assume new: "sid \<noteq> hex_string (take 16 (he_rand A))" and out: "rq_path r \<noteq> ''/auth/logout'' \<or> rq_cookie r \<noteq> Some sid"
  show ?thesis
  proof (cases "find (matches r) routes")
    case None
    then show ?thesis by (simp add: serve_def)
  next
    case (Some x)
    obtain m p ep where x: "x = (m, p, ep)" by (cases x)
    have "matches r x" "x \<in> set routes"
      using Some by (auto simp: find_Some_iff)
    then have "ep = Ep_logout \<Longrightarrow> rq_path r = ''/auth/logout''"
      by (auto simp: x routes_def matches_def)
    then have "ht_sessions (snd (run_endpoint reg login A ep r s)) sid = ht_sessions s sid"
      using new out
      by (cases ep) (auto simp: frame_simps http_logout_def session_delete_def http_login_def session_create_def Let_def
          split: prod.split sum.split option.split)
    then show ?thesis using Some by (simp add: serve_def x)
  qed
qed

datatype 'a http_event = Served "'a http_env" request | Reaped time

fun http_step ::
  "('a \<Rightarrow> string \<Rightarrow> string \<Rightarrow> 'u \<Rightarrow> string option \<times> 'u) \<Rightarrow> ('a \<Rightarrow> string \<Rightarrow> string \<Rightarrow> 'u \<Rightarrow> (string + bytes \<times> bytes) \<times> 'u)
    \<Rightarrow> bool \<Rightarrow> 'a http_event \<Rightarrow> 'u http_state \<Rightarrow> 'u http_state" where
  "http_step reg login static (Served A r) s = snd (serve reg login static A r s)"
| "http_step reg login static (Reaped now) s = s\<lparr>ht_sessions := session_reap now (ht_sessions s)\<rparr>"

text \<open>No request of the list logs the session out or draws its identifier again.\<close>

definition spares :: "string \<Rightarrow> 'a http_event \<Rightarrow> bool" where
  "spares sid e = (case e of
     Served A r \<Rightarrow> sid \<noteq> hex_string (take 16 (he_rand A)) \<and> (rq_path r \<noteq> ''/auth/logout'' \<or> rq_cookie r \<noteq> Some sid)
   | Reaped _ \<Rightarrow> True)"

lemma http_step_session:
  assumes "spares sid e"
  shows "ht_sessions (http_step reg login static e s) sid =
    (case ht_sessions s sid of
       None \<Rightarrow> None
     | Some sess \<Rightarrow> if \<exists>t. e = Reaped t \<and> t - hs_created sess > 24 * hour then None else Some sess)"
  using assms serve_sessions [of sid _ _ reg login static s]
  by (cases e) (auto simp: spares_def session_reap_def split: option.split)

section \<open>Signing up and using the vault\<close>

definition api_request :: "string \<Rightarrow> string \<Rightarrow> string option \<Rightarrow> string \<Rightarrow> string \<Rightarrow> request" where
  "api_request m p ck site b = \<lparr>rq_method = m, rq_path = p, rq_origin = [], rq_cookie = ck, rq_site = site, rq_body = b\<rparr>"

definition credentials :: "string \<Rightarrow> string \<Rightarrow> string" where
  "credentials u p = string_of (encode_struct [(''username'', u), (''password'', p)])"

definition entry_body :: "password_entry \<Rightarrow> string" where
  "entry_body e = string_of (encode_struct
     [(''site'', pe_site e), (''username'', pe_username e), (''password'', pe_password e)])"

lemma decode_credentials:
  "rq_body r = credentials u p \<Longrightarrow>
    decode_body [''username'', ''password''] r = Some ((\<lambda>_. [])(''username'' := coerce_utf8 u, ''password'' := coerce_utf8 p))"
  by (simp add: decode_body_def credentials_def bytes_of_string_of)
     (subst unmarshal_encode_struct(2), simp_all add: write_fields_def)

lemma decode_entry_body:
  "rq_body r = entry_body e \<Longrightarrow> decode_body [''site'', ''username'', ''password''] r =
    Some ((\<lambda>_. [])(''site'' := coerce_utf8 (pe_site e), ''username'' := coerce_utf8 (pe_username e),
      ''password'' := coerce_utf8 (pe_password e)))"
  by (simp add: decode_body_def entry_body_def bytes_of_string_of)
     (subst unmarshal_encode_struct(2), simp_all add: write_fields_def)

lemma serve_routes:
  assumes "rq_method r = m" "rq_path r = p"
  shows "(m, p) = (''POST'', ''/auth/register'') \<Longrightarrow> serve reg login static A r s = http_register (reg (he_auth A)) r s"
    "(m, p) = (''POST'', ''/auth/login'') \<Longrightarrow> serve reg login static A r s = http_login (login (he_auth A)) A r s"
    "(m, p) = (''POST'', ''/vault/save'') \<Longrightarrow> serve reg login static A r s = require_session (http_save A) r s"
    "(m, p) = (''GET'', ''/vault/get'') \<Longrightarrow> serve reg login static A r s = require_session (http_get A) r s"
  using assms by (simp_all add: serve_def routes_def matches_def)

lemma api_request_simps [simp]:
  "rq_cookie (api_request m p ck site b) = ck" "rq_site (api_request m p ck site b) = site"
  "rq_body (api_request m p ck site b) = b" "rq_method (api_request m p ck site b) = m" "rq_path (api_request m p ck site b) = p"
  by (simp_all add: api_request_def)

context user_store_iface begin

lemma signup:
  assumes "ready (he_auth A) u (ht_users s)" "fine (he_auth B)" "fst (reg (he_auth A) u p (ht_users s)) = None"
    and "u \<noteq> []" "8 \<le> length p"
    and q1: "rq_method q1 = ''POST''" "rq_path q1 = ''/auth/register''" "decode_body [''username'', ''password''] q1 = Some f1"
    and f1: "f1 ''username'' = u" "f1 ''password'' = p"
    and q2: "rq_method q2 = ''POST''" "rq_path q2 = ''/auth/login''" "decode_body [''username'', ''password''] q2 = Some f2"
    and f2: "f2 ''username'' = u" "f2 ''password'' = p"
  shows "\<exists>k salt s1 s2.
    serve reg login static A q1 s = (json_ok_reply (Message ''registered successfully''), s1)
    \<and> serve reg login static B q2 s1
      = ((json_ok_reply (Logged_in u salt))\<lparr>rs_cookie := Set_cookie (hex_string (take 16 (he_rand B)))\<rparr>, s2)
    \<and> key_size_ok k \<and> ht_world s2 = ht_world s
    \<and> ht_sessions s2 = (ht_sessions s)(hex_string (take 16 (he_rand B)) \<mapsto> \<lparr>hs_user = u, hs_key = k, hs_created = he_now B\<rparr>)"
proof -
  obtain us1 where us1: "reg (he_auth A) u p (ht_users s) = (None, us1)"
    using assms(3) by (metis prod.collapse)
  obtain k salt where "fst (login (he_auth B) u p us1) = Inr (k, salt)" and k: "key_size_ok k"
    using login_after_reg [OF assms(1,2) us1] by blast
  then obtain us2 where us2: "login (he_auth B) u p us1 = (Inr (k, salt), us2)" by (metis prod.collapse)
  have "p \<noteq> []" using assms(5) by auto
  let ?sid = "hex_string (take 16 (he_rand B))"
  let ?s1 = "s\<lparr>ht_users := us1\<rparr>"
  let ?s2 = "?s1\<lparr>ht_users := us2, ht_sessions := (ht_sessions s)(?sid \<mapsto> \<lparr>hs_user = u, hs_key = k, hs_created = he_now B\<rparr>)\<rparr>"
  have "serve reg login static A q1 s = (json_ok_reply (Message ''registered successfully''), ?s1)"
    using assms(4,5) us1 \<open>p \<noteq> []\<close> by (simp add: serve_routes(1) [OF q1(1,2)] http_register_def q1(3) f1)
  moreover have "serve reg login static B q2 ?s1 = ((json_ok_reply (Logged_in u salt))\<lparr>rs_cookie := Set_cookie ?sid\<rparr>, ?s2)"
    using us2 by (simp add: serve_routes(2) [OF q2(1,2)] http_login_def q2(3) f2 session_create_def Let_def)
  ultimately show ?thesis using k by (intro exI [of _ k] exI [of _ salt] exI [of _ ?s1] exI [of _ ?s2]) simp
qed

end

text \<open>A save and a get with a session's cookie.\<close>

lemma serve_save:
  assumes q: "rq_method q = ''POST''" "rq_path q = ''/vault/save''" "decode_body [''site'', ''username'', ''password''] q = Some f"
    and f: "f ''site'' = pe_site e" "f ''username'' = pe_username e" "f ''password'' = pe_password e"
    and "pe_site e \<noteq> []" "pe_username e \<noteq> []" "pe_password e \<noteq> []"
    and "session_of q s = Some sess"
    and "vault_save (he_nonce A) (he_net A) (new_vault_client sess) e (ht_world s) = (None, w)"
  shows "serve reg login static A q s = (json_ok_reply (Message ''saved''), s\<lparr>ht_world := w\<rparr>)"
  using assms by (cases e) (simp add: serve_routes(3) [OF q(1,2)] require_session_eq http_save_def)

lemma serve_get:
  assumes q: "rq_method q = ''GET''" "rq_path q = ''/vault/get''" "rq_site q = site" "site \<noteq> []"
    and "session_of q s = Some sess"
    and "vault_get (he_net A) (new_vault_client sess) site (ht_world s) = (Inr e, w)"
  shows "serve reg login static A q s = (json_ok_reply (Entry e), s\<lparr>ht_world := w\<rparr>)"
  using assms by (simp add: serve_routes(4) [OF q(1,2)] require_session_eq http_get_def)

section \<open>Properties\<close>

lemma auth_register_success:
  "fst (auth_register K A u p s) = None \<Longrightarrow> u \<noteq> [] \<and> 8 \<le> length p"
  by (auto simp: auth_register_def min_password_length_def split: if_splits)

text \<open>The whole way of an entry: four requests, in whatever form they come, to register, log in, save and get.\<close>

lemma session_flow:
  assumes "kdf_ok K" "file_ok (ht_users s)" "keys_ok (he_auth A1) u (ht_users s)" "coerce_utf8 u = u"
    and "fst (auth_register K (he_auth A1) u p (ht_users s)) = None" "ae_read (he_auth A2) = None"
    and "all_fine en" "master_knows en (ht_world s) m c" "room (ht_world s)" "numbers_issued (ht_world s) m"
    and "readable en' (ht_world s) m"
    and "he_net A3 = (\<lambda>_. en)" "he_nonce A3 = Inr r" "12 \<le> length r" "he_net A4 = (\<lambda>_. en')"
    and "utf8_password_entry e" "pe_site e \<noteq> []" "pe_username e \<noteq> []" "pe_password e \<noteq> []"
    and qa: "rq_method qa = ''POST''" "rq_path qa = ''/auth/register''" "decode_body [''username'', ''password''] qa = Some fa"
      "fa ''username'' = u" "fa ''password'' = p"
    and qb: "rq_method qb = ''POST''" "rq_path qb = ''/auth/login''" "decode_body [''username'', ''password''] qb = Some fb"
      "fb ''username'' = u" "fb ''password'' = p"
    and qc: "rq_method qc = ''POST''" "rq_path qc = ''/vault/save''" "decode_body [''site'', ''username'', ''password''] qc = Some fc"
      "fc ''site'' = pe_site e" "fc ''username'' = pe_username e" "fc ''password'' = pe_password e"
    and qd: "rq_method qd = ''GET''" "rq_path qd = ''/vault/get''" "rq_site qd = pe_site e"
    and cookies: "rq_cookie qc = Some (hex_string (take 16 (he_rand A2)))" "rq_cookie qd = Some (hex_string (take 16 (he_rand A2)))"
  shows "\<exists>salt s1 s2 s3 s4.
    serve (auth_register K) (auth_login K) static A1 qa s = (json_ok_reply (Message ''registered successfully''), s1)
    \<and> serve (auth_register K) (auth_login K) static A2 qb s1
      = ((json_ok_reply (Logged_in u salt))\<lparr>rs_cookie := Set_cookie (hex_string (take 16 (he_rand A2)))\<rparr>, s2)
    \<and> serve (auth_register K) (auth_login K) static A3 qc s2 = (json_ok_reply (Message ''saved''), s3)
    \<and> serve (auth_register K) (auth_login K) static A4 qd s3 = (json_ok_reply (Entry e), s4)"
proof -
  have ready: "kdf_ok K \<and> file_ok (ht_users s) \<and> keys_ok (he_auth A1) u (ht_users s) \<and> coerce_utf8 u = u"
    using assms(1-4) by simp
  obtain k salt s1 s2 where su:
    "serve (auth_register K) (auth_login K) static A1 qa s = (json_ok_reply (Message ''registered successfully''), s1)"
    "serve (auth_register K) (auth_login K) static A2 qb s1
      = ((json_ok_reply (Logged_in u salt))\<lparr>rs_cookie := Set_cookie (hex_string (take 16 (he_rand A2)))\<rparr>, s2)"
    "key_size_ok k" "ht_world s2 = ht_world s"
    "ht_sessions s2 = (ht_sessions s)(hex_string (take 16 (he_rand A2)) \<mapsto> \<lparr>hs_user = u, hs_key = k, hs_created = he_now A2\<rparr>)"
    using auth.signup [OF ready assms(6,5) auth_register_success [OF assms(5), THEN conjunct1]
        auth_register_success [OF assms(5), THEN conjunct2] qa qb] by blast
  let ?v = "\<lparr>vc_key = k, vc_user = u\<rparr>" and ?sess = "\<lparr>hs_user = u, hs_key = k, hs_created = he_now A2\<rparr>"
  let ?w3 = "after_change en c m (put_op (entry_key ?v (pe_site e)) (sealed_entry r k e) (md_seq (ms_meta m) + 1)) (ht_world s)"
  have save: "vault_save (Inr r) (\<lambda>_. en) ?v e (ht_world s) = (None, ?w3)"
    and "fst (vault_get (\<lambda>_. en') ?v (pe_site e) ?w3) = Inr e"
    using save_then_read [OF assms(7-11), of ?v r e] su(3) assms(14,16) by simp_all
  then obtain w4 where get: "vault_get (\<lambda>_. en') ?v (pe_site e) ?w3 = (Inr e, w4)" by (metis prod.collapse)
  have r3: "serve (auth_register K) (auth_login K) static A3 qc s2 = (json_ok_reply (Message ''saved''), s2\<lparr>ht_world := ?w3\<rparr>)"
    using save assms(12,13) su(4,5) cookies
    by (intro serve_save [OF qc assms(17-19), where sess = ?sess]) (simp_all add: session_of_def session_get_def new_vault_client_def)
  have r4: "serve (auth_register K) (auth_login K) static A4 qd (s2\<lparr>ht_world := ?w3\<rparr>) = (json_ok_reply (Entry e), s2\<lparr>ht_world := w4\<rparr>)"
    using get assms(15) su(5) cookies
    by (subst serve_get [OF qd assms(17), where w = w4 and sess = ?sess]) (simp_all add: session_of_def session_get_def new_vault_client_def)
  show ?thesis using su(1,2) r3 r4 by blast
qed

text \<open>Claim C12. From signing up to reading back, over the API: when the registration goes through and the
  cluster is healthy, registering, logging in, saving an entry with the session cookie and getting
  its site with the same cookie are answered with 200, and the last answer is the saved entry.\<close>

theorem signup_save_get:
  assumes "kdf_ok K" "file_ok (ht_users s)" "keys_ok (he_auth A1) u (ht_users s)" "coerce_utf8 u = u"
    and "fst (auth_register K (he_auth A1) u p (ht_users s)) = None" "ae_read (he_auth A2) = None"
    and "all_fine en" "master_knows en (ht_world s) m c" "room (ht_world s)" "numbers_issued (ht_world s) m"
    and "readable en' (ht_world s) m"
    and "he_net A3 = (\<lambda>_. en)" "he_nonce A3 = Inr r" "12 \<le> length r" "he_net A4 = (\<lambda>_. en')"
    and "coerce_utf8 p = p" "utf8_password_entry e" "pe_site e \<noteq> []" "pe_username e \<noteq> []" "pe_password e \<noteq> []"
  shows "let api = serve (auth_register K) (auth_login K) static;
      ck = Some (hex_string (take 16 (he_rand A2)));
      (r1, s1) = api A1 (api_request ''POST'' ''/auth/register'' None [] (credentials u p)) s;
      (r2, s2) = api A2 (api_request ''POST'' ''/auth/login'' None [] (credentials u p)) s1;
      (r3, s3) = api A3 (api_request ''POST'' ''/vault/save'' ck [] (entry_body e)) s2;
      (r4, s4) = api A4 (api_request ''GET'' ''/vault/get'' ck (pe_site e) []) s3
    in map rs_status [r1, r2, r3, r4] = [200, 200, 200, 200] \<and> rs_cookie r2 = Set_cookie (the ck)
      \<and> rs_payload r4 = Entry e"
proof -
  have utf8: "coerce_utf8 (pe_site e) = pe_site e" "coerce_utf8 (pe_username e) = pe_username e" "coerce_utf8 (pe_password e) = pe_password e"
    using assms(17) by (simp_all add: utf8_password_entry_def)
  obtain salt s1 s2 s3 s4 where
    "serve (auth_register K) (auth_login K) static A1 (api_request ''POST'' ''/auth/register'' None [] (credentials u p)) s
      = (json_ok_reply (Message ''registered successfully''), s1)"
    "serve (auth_register K) (auth_login K) static A2 (api_request ''POST'' ''/auth/login'' None [] (credentials u p)) s1
      = ((json_ok_reply (Logged_in u salt))\<lparr>rs_cookie := Set_cookie (hex_string (take 16 (he_rand A2)))\<rparr>, s2)"
    "serve (auth_register K) (auth_login K) static A3
      (api_request ''POST'' ''/vault/save'' (Some (hex_string (take 16 (he_rand A2)))) [] (entry_body e)) s2
      = (json_ok_reply (Message ''saved''), s3)"
    "serve (auth_register K) (auth_login K) static A4
      (api_request ''GET'' ''/vault/get'' (Some (hex_string (take 16 (he_rand A2)))) (pe_site e) []) s3 = (json_ok_reply (Entry e), s4)"
    using session_flow [where qa = "api_request ''POST'' ''/auth/register'' None [] (credentials u p)"
        and qb = "api_request ''POST'' ''/auth/login'' None [] (credentials u p)"
        and qc = "api_request ''POST'' ''/vault/save'' (Some (hex_string (take 16 (he_rand A2)))) [] (entry_body e)"
        and qd = "api_request ''GET'' ''/vault/get'' (Some (hex_string (take 16 (he_rand A2)))) (pe_site e) []" and static = static,
        OF assms(1-15,17-20) _ _ decode_credentials [OF api_request_simps(3)] _ _ _ _
        decode_credentials [OF api_request_simps(3)] _ _ _ _ decode_entry_body [OF api_request_simps(3)]]
      assms(4,16) utf8 by (simp del: split_paired_Ex) blast
  then show ?thesis by (simp add: Let_def json_ok_reply_def)
qed

definition example_http_env :: "auth_env http_env" where
  "example_http_env = \<lparr>he_now = 0, he_auth = example_auth_env, he_rand = replicate 16 10, he_nonce = Inr (replicate 12 5),
     he_net = (\<lambda>_. example_env)\<rparr>"

definition example_site :: "user_store http_state" where
  "example_site = \<lparr>ht_users = no_users, ht_sessions = Map.empty, ht_world = example_world\<rparr>"

theorem signup_save_get_witness:
  "let api = serve (auth_register toy_kdf) (auth_login toy_kdf) True;
      ck = Some (hex_string (take 16 (he_rand example_http_env)));
      (r1, s1) = api example_http_env (api_request ''POST'' ''/auth/register'' None [] (credentials ''bob'' ''longsecret'')) example_site;
      (r2, s2) = api example_http_env (api_request ''POST'' ''/auth/login'' None [] (credentials ''bob'' ''longsecret'')) s1;
      (r3, s3) = api example_http_env (api_request ''POST'' ''/vault/save'' ck [] (entry_body example_entry)) s2;
      (r4, s4) = api example_http_env (api_request ''GET'' ''/vault/get'' ck (pe_site example_entry) []) s3
    in map rs_status [r1, r2, r3, r4] = [200, 200, 200, 200] \<and> rs_cookie r2 = Set_cookie (the ck)
      \<and> rs_payload r4 = Entry example_entry"
proof (rule signup_save_get [where en = example_env and en' = example_env and m = example_master and c = example_primary
      and r = "replicate 12 5"])
  show "kdf_ok toy_kdf" by (rule toy_kdf_ok)
  show "all_fine example_env" by (rule example_fine)
  show "coerce_utf8 ''longsecret'' = ''longsecret''" by (simp add: coerce_utf8_ascii)
  show "utf8_password_entry example_entry" by (rule example_entry_utf8)
  show "master_knows example_env (ht_world example_site) example_master example_primary"
    "room (ht_world example_site)" "numbers_issued (ht_world example_site) example_master"
    "readable example_env (ht_world example_site) example_master"
    by (simp_all add: example_site_def example_knows example_room example_issued example_readable)
  show "file_ok (ht_users example_site)" "keys_ok (he_auth example_http_env) ''bob'' (ht_users example_site)" "coerce_utf8 ''bob'' = ''bob''"
    "fst (auth_register toy_kdf (he_auth example_http_env) ''bob'' ''longsecret'' (ht_users example_site)) = None"
    using example_ready by (simp_all add: example_site_def example_http_env_def example_register)
qed (simp_all add: example_http_env_def example_auth_env_def example_entry_def)

text \<open>Claim C13. In any circumstances a request changes only entries whose keys begin with the name of the
  user of its session and a slash; a vault request without a valid session is answered with 401
  and changes nothing at all.\<close>

theorem requests_stay_in_namespace:
  assumes "\<forall>sess. session_of r s = Some sess \<longrightarrow> \<not> has_prefix k (hs_user sess @ ''/'')"
  shows "entries_at (ht_world (snd (serve reg login static A r s))) b k = entries_at (ht_world s) b k
    \<and> (session_of r s = None \<and> find (matches r) routes = Some (m, p, ep) \<and> ep \<in> {Ep_list, Ep_get, Ep_save, Ep_delete}
        \<longrightarrow> rs_status (fst (serve reg login static A r s)) = 401 \<and> snd (serve reg login static A r s) = s)"
proof (cases "find (matches r) routes")
  case None
  then show ?thesis by (simp add: serve_def)
next
  case (Some x)
  obtain m' p' ep' where x: "x = (m', p', ep')" by (cases x)
  have "serve reg login static A r s = run_endpoint reg login A ep' r s" by (simp add: serve_def Some x)
  moreover have "rs_status (fst (run_endpoint reg login A ep' r s)) = 401 \<and> snd (run_endpoint reg login A ep' r s) = s"
    if "session_of r s = None" "ep' \<in> {Ep_list, Ep_get, Ep_save, Ep_delete}"
    using that by (auto simp: require_session_eq json_error_def)
  ultimately show ?thesis
    using run_endpoint_entries [OF assms, of reg login A ep' b] Some x by auto
qed

theorem requests_stay_in_namespace_witness:
  "rs_status (fst (serve (auth_register toy_kdf) (auth_login toy_kdf) True example_http_env
      (api_request ''DELETE'' ''/vault/delete'' (Some ''00'') ''mail'' []) example_site)) = 401"
proof -
  let ?r = "api_request ''DELETE'' ''/vault/delete'' (Some ''00'') ''mail'' []"
  have "session_of ?r example_site = None"
    by (simp add: session_of_def session_get_def example_site_def)
  moreover have "find (matches ?r) routes = Some (''DELETE'', ''/vault/delete'', Ep_delete)"
    by (simp add: routes_def matches_def api_request_def)
  ultimately show ?thesis
    using requests_stay_in_namespace [of ?r example_site _ "auth_register toy_kdf" "auth_login toy_kdf" True example_http_env
        _ "''DELETE''" "''/vault/delete''" Ep_delete] by simp
qed

text \<open>Claim C17. A session that nobody logs out, and whose identifier is not drawn again, stays valid, for its user and with its
  key, whatever requests are served, until the first round of the cleaner that finds it older than 24 hours, and
  is gone from then on.\<close>

theorem session_lifetime:
  assumes "ht_sessions s sid = Some sess" "\<forall>e \<in> set es. spares sid e"
  shows "ht_sessions (fold (http_step reg login static) es s) sid =
    (if \<exists>t. Reaped t \<in> set es \<and> t - hs_created sess > 24 * hour then None else Some sess)"
  using assms
proof (induction es arbitrary: s)
  case (Cons e es)
  have gone: "ht_sessions (fold (http_step reg login static) es s) sid = None"
    if "ht_sessions s sid = None" "\<forall>e \<in> set es. spares sid e" for es s
    using that
  proof (induction es arbitrary: s)
    case (Cons e es)
    then show ?case using http_step_session [of sid e reg login static s] by simp
  qed simp
  have step: "ht_sessions (http_step reg login static e s) sid =
      (if \<exists>t. e = Reaped t \<and> t - hs_created sess > 24 * hour then None else Some sess)"
    using http_step_session [of sid e reg login static s] Cons.prems by simp
  show ?case
  proof (cases "\<exists>t. e = Reaped t \<and> t - hs_created sess > 24 * hour")
    case True
    then show ?thesis using step gone [of "http_step reg login static e s" es] Cons.prems(2) by auto
  next
    case False
    then show ?thesis using step Cons.IH [of "http_step reg login static e s"] Cons.prems(2) by auto
  qed
qed simp

theorem session_lifetime_witness:
  "ht_sessions (fold (http_step (auth_register toy_kdf) (auth_login toy_kdf) True)
      [Reaped (23 * hour), Served example_http_env (api_request ''GET'' ''/health'' None [] []), Reaped (25 * hour)]
      (example_site\<lparr>ht_sessions := [''0a'' \<mapsto> \<lparr>hs_user = ''bob'', hs_key = [], hs_created = 0\<rparr>]\<rparr>)) ''0a'' = None"
proof -
  have "length (hex_string (take 16 (he_rand example_http_env))) = 32"
    by (simp add: example_http_env_def length_hex_string)
  then have "length (hex_string (take 16 (he_rand example_http_env))) \<noteq> length ''0a''"
    by simp
  then have "''0a'' \<noteq> hex_string (take 16 (he_rand example_http_env))"
    by (rule contrapos_nn) simp
  then show ?thesis
    by (subst session_lifetime [of _ "''0a''" "\<lparr>hs_user = ''bob'', hs_key = [], hs_created = 0\<rparr>"])
       (auto simp: spares_def api_request_def)
qed

end
