(* ===== verification/Go_Strings.thy ===== *)
theory Go_Strings
  imports Json
begin

text \<open>
  More of Go's standard library on strings, for the command line client: \<open>strings.TrimSpace\<close>,
  \<open>strings.Fields\<close> and \<open>strings.LastIndex\<close>, and the escaping and parsing of URL queries
  (\<open>url.QueryEscape\<close>, \<open>url.ParseQuery\<close>). Bytes are numbers below 256, as in the JSON theory.
\<close>

section \<open>White space\<close>

text \<open>\<open>unicode.IsSpace\<close>.\<close>

definition is_space :: "nat \<Rightarrow> bool" where
  "is_space r \<longleftrightarrow> (9 \<le> r \<and> r \<le> 13) \<or> r \<in> {32, 133, 160, 5760, 8232, 8233, 8239, 8287, 12288} \<or> (8192 \<le> r \<and> r \<le> 8202)"

function trim_left :: "nat list \<Rightarrow> nat list" where
  "trim_left [] = []"
| "trim_left (b # bs) =
    (let (r, w) = decode_rune (b # bs) in if is_space r then trim_left (drop (w - 1) bs) else b # bs)"
  by pat_completeness auto
termination
  by (relation "measure length") auto

text \<open>\<open>utf8.DecodeLastRuneInString\<close> on a text that is not empty: the nearest byte that can begin a rune decides.\<close>

definition rune_start :: "nat \<Rightarrow> bool" where
  "rune_start b \<longleftrightarrow> \<not> cont b"

definition decode_last_rune :: "nat list \<Rightarrow> nat \<times> nat" where
  "decode_last_rune bs =
    (let n = length bs in
     if last bs < 128 then (last bs, 1)
     else
       (case find (\<lambda>k. k \<le> n \<and> rune_start (bs ! (n - k))) [2, 3, 4] of
          None \<Rightarrow> (rune_error, 1)
        | Some k \<Rightarrow> let (r, w) = decode_rune (drop (n - k) bs) in if w = k then (r, k) else (rune_error, 1)))"

lemma decode_last_width: "0 < snd (decode_last_rune bs)"
  by (auto simp: decode_last_rune_def Let_def find_Some_iff nth_Cons split: option.split prod.split nat.splits)

function trim_right :: "nat list \<Rightarrow> nat list" where
  "trim_right bs =
    (if bs = [] then []
     else let (r, w) = decode_last_rune bs in if is_space r then trim_right (take (length bs - w) bs) else bs)"
  by pat_completeness auto
termination
proof (relation "measure length", goal_cases)
  case (2 bs x r w)
  have "w = snd (decode_last_rune bs)" using 2(2,3) by (metis snd_conv)
  then show ?case using decode_last_width [of bs] 2(1) by (cases bs) auto
qed simp

declare trim_right.simps [simp del]

definition trim_space :: "string \<Rightarrow> string" where
  "trim_space s = string_of (trim_right (trim_left (bytes_of s)))"

text \<open>\<open>split_fields cur bs\<close>: the field being read and the rest of the text.\<close>

function split_fields :: "nat list \<Rightarrow> nat list \<Rightarrow> nat list list" where
  "split_fields cur [] = (if cur = [] then [] else [cur])"
| "split_fields cur (b # bs) =
    (let (r, w) = decode_rune (b # bs) in
     if is_space r then (if cur = [] then [] else [cur]) @ split_fields [] (drop (w - 1) bs)
     else split_fields (cur @ take w (b # bs)) (drop (w - 1) bs))"
  by pat_completeness auto
termination
  by (relation "measure (\<lambda>(_, bs). length bs)") auto

definition string_fields :: "string \<Rightarrow> string list" where
  "string_fields s = map string_of (split_fields [] (bytes_of s))"

text \<open>Texts without white space at their ends, when they are ASCII there.\<close>

lemma is_space_ascii: "b < 128 \<Longrightarrow> is_space b \<longleftrightarrow> (9 \<le> b \<and> b \<le> 13) \<or> b = 32"
  by (auto simp: is_space_def)

lemma trim_space_id:
  assumes "s = [] \<or> (\<forall>c \<in> {hd s, last s}. (of_char c :: nat) < 128 \<and> \<not> is_space (of_char c))"
  shows "trim_space s = s"
proof (cases s)
  case Nil
  then show ?thesis by (simp add: trim_space_def bytes_of_def string_of_def trim_right.simps)
next
  case (Cons c t)
  let ?bs = "bytes_of s"
  have bs: "?bs = of_char c # bytes_of t" by (simp add: Cons bytes_of_def)
  have "last ?bs = of_char (last s)" unfolding bytes_of_def using Cons by (simp add: last_map)
  then have last: "last ?bs < 128" "\<not> is_space (last ?bs)" using assms Cons by simp_all
  have "trim_left ?bs = ?bs"
    unfolding bs using assms Cons by simp
  moreover have "decode_last_rune ?bs = (last ?bs, 1)"
    using last(1) by (simp add: decode_last_rune_def)
  then have "trim_right ?bs = ?bs"
    using last(2) by (subst trim_right.simps) simp
  ultimately show ?thesis by (simp add: trim_space_def)
qed

lemma split_fields_word:
  "\<forall>b \<in> set bs. b < 128 \<and> \<not> is_space b \<Longrightarrow> split_fields cur bs = (if cur @ bs = [] then [] else [cur @ bs])"
  by (induction bs arbitrary: cur) auto

lemma string_fields_word:
  "w \<noteq> [] \<Longrightarrow> \<forall>c \<in> set w. (of_char c :: nat) < 128 \<and> \<not> is_space (of_char c) \<Longrightarrow> string_fields w = [w]"
proof -
  assume w: "w \<noteq> []" "\<forall>c \<in> set w. (of_char c :: nat) < 128 \<and> \<not> is_space (of_char c)"
  then have "split_fields [] (bytes_of w) = [bytes_of w]"
    by (subst split_fields_word) (auto simp: bytes_of_def)
  then show ?thesis by (simp add: string_fields_def)
qed

section \<open>Queries\<close>

definition hex_upper :: "nat \<Rightarrow> char" where
  "hex_upper n = (if n < 10 then char_of (48 + n) else char_of (55 + n))"

definition unreserved :: "char \<Rightarrow> bool" where
  "unreserved c \<longleftrightarrow> (let n = (of_char c :: nat) in
     (48 \<le> n \<and> n \<le> 57) \<or> (65 \<le> n \<and> n \<le> 90) \<or> (97 \<le> n \<and> n \<le> 122) \<or> n \<in> {45, 46, 95, 126})"

definition escape_char :: "char \<Rightarrow> string" where
  "escape_char c =
    (if unreserved c then [c]
     else if c = CHR '' '' then ''+''
     else [CHR ''%'', hex_upper (of_char c div 16), hex_upper (of_char c mod 16)])"

definition query_escape :: "string \<Rightarrow> string" where
  "query_escape s = concat (map escape_char s)"

fun query_unescape :: "string \<Rightarrow> string option" where
  "query_unescape [] = Some []"
| "query_unescape (c # s) =
    (if c = CHR ''%'' then
       (case s of
          h # l # t \<Rightarrow>
            (case parse_hex2 h l of
               Some v \<Rightarrow> map_option (\<lambda>u. char_of v # u) (query_unescape t)
             | None \<Rightarrow> None)
        | _ \<Rightarrow> None)
     else map_option (\<lambda>u. (if c = CHR ''+'' then CHR '' '' else c) # u) (query_unescape s))"

text \<open>\<open>strings.Cut\<close> at a character.\<close>

fun str_cut :: "char \<Rightarrow> string \<Rightarrow> string \<times> string" where
  "str_cut c [] = ([], [])"
| "str_cut c (x # s) = (if x = c then ([], s) else let (a, b) = str_cut c s in (x # a, b))"

lemma str_cut_length: "s \<noteq> [] \<Longrightarrow> length (snd (str_cut c s)) < length s"
proof (induction s)
  case (Cons x s)
  then show ?case by (cases "s = []") (auto split: prod.split)
qed simp

lemma str_cut_here: "c \<notin> set a \<Longrightarrow> str_cut c (a @ c # b) = (a, b)"
  by (induction a) auto

lemma str_cut_none: "c \<notin> set a \<Longrightarrow> str_cut c a = (a, [])"
  by (induction a) auto

text \<open>\<open>query_values q\<close>: the pairs of the query that parse, in order; \<open>Get\<close> takes the first value of a name.\<close>

function query_values :: "string \<Rightarrow> (string \<times> string) list" where
  "query_values q =
    (if q = [] then []
     else
       let (part, rest) = str_cut (CHR ''&'') q in
       (if CHR '';'' \<in> set part \<or> part = [] then []
        else
          (let (k, v) = str_cut (CHR ''='') part in
           case (query_unescape k, query_unescape v) of (Some k, Some v) \<Rightarrow> [(k, v)] | _ \<Rightarrow> []))
       @ query_values rest)"
  by pat_completeness auto
termination
proof (relation "measure length", goal_cases)
  case (2 q x part rest)
  have "rest = snd (str_cut (CHR ''&'') q)" using 2(2,3) by (metis snd_conv)
  then show ?case using str_cut_length [of q "CHR ''&''"] 2(1) by simp
qed simp

declare query_values.simps [simp del]

definition query_get :: "string \<Rightarrow> string \<Rightarrow> string" where
  "query_get name q = (case map_of (query_values q) name of Some v \<Rightarrow> v | None \<Rightarrow> [])"

lemma char_byte: "(of_char c :: nat) < 256"
  by simp

lemma hex_value_upper: "n < 16 \<Longrightarrow> hex_value (hex_upper n) = Some n"
  by (simp add: hex_value_def hex_upper_def Let_def)

lemma escape_char_unescape: "query_unescape (escape_char c @ s) = map_option (\<lambda>u. c # u) (query_unescape s)"
proof (cases "unreserved c")
  case True
  then have "c \<noteq> CHR ''%''" "c \<noteq> CHR ''+''" by (auto simp: unreserved_def)
  with True show ?thesis by (simp add: escape_char_def)
next
  case False
  have "(of_char c :: nat) div 16 < 16" using char_byte [of c] by linarith
  then have "parse_hex2 (hex_upper (of_char c div 16)) (hex_upper (of_char c mod 16)) = Some (of_char c)"
    by (simp add: parse_hex2_def hex_value_upper)
  with False show ?thesis by (simp add: escape_char_def)
qed

lemma query_unescape_escape: "query_unescape (query_escape s) = Some s"
  by (induction s) (simp_all add: query_escape_def escape_char_unescape)

lemma query_escape_chars: "c \<in> set (query_escape s) \<Longrightarrow> unreserved c \<or> c = CHR ''+'' \<or> c = CHR ''%''"
proof -
  have hex: "unreserved (hex_upper n)" if "n < 16" for n
    using that by (auto simp: unreserved_def hex_upper_def Let_def)
  have "(of_char x :: nat) div 16 < 16" for x using char_byte [of x] by linarith
  then show "c \<in> set (query_escape s) \<Longrightarrow> unreserved c \<or> c = CHR ''+'' \<or> c = CHR ''%''"
    by (auto simp: query_escape_def escape_char_def hex split: if_splits)
qed

text \<open>What a handler reads for a name is what was escaped for it.\<close>

lemma query_get_escape:
  assumes "\<forall>c \<in> set name. unreserved c" "name \<noteq> []"
  shows "query_get name (name @ CHR ''='' # query_escape s) = s"
proof -
  let ?q = "name @ CHR ''='' # query_escape s"
  have no: "c \<notin> set (query_escape s)" "c \<notin> set name" if "c \<in> {CHR ''&'', CHR '';'', CHR ''=''}" for c
    using that query_escape_chars [of c s] assms(1) by (auto simp: unreserved_def)
  have amp: "str_cut (CHR ''&'') ?q = (?q, [])" by (rule str_cut_none) (use no in auto)
  have eq: "str_cut (CHR ''='') ?q = (name, query_escape s)" by (rule str_cut_here) (use no in auto)
  have "query_unescape name = Some name"
  proof -
    have "query_escape name = name"
      using assms(1) by (induction name) (simp_all add: query_escape_def escape_char_def)
    then show ?thesis using query_unescape_escape [of name] by simp
  qed
  then have "query_values ?q = [(name, s)]"
    using no query_values.simps [of "[]"]
    by (subst query_values.simps) (simp add: amp eq query_unescape_escape)
  then show ?thesis by (simp add: query_get_def)
qed

section \<open>The host of an address\<close>

text \<open>The text before the last colon; slicing to \<open>strings.LastIndex\<close> of a text without one panics.\<close>

definition before_last_colon :: "string \<Rightarrow> string option" where
  "before_last_colon s =
    (if CHR '':'' \<in> set s then Some (rev (drop 1 (dropWhile (\<lambda>c. c \<noteq> CHR '':'') (rev s)))) else None)"

end
