(* ===== verification/Replies.thy ===== *)
theory Replies
  imports Http_Api Go_Strings
begin

text \<open>
  The replies of the REST API as they travel: the bodies that \<open>jsonOK\<close> and \<open>jsonError\<close> write
  (\<open>pkg/master/http.go\<close>) and what the command line client (\<open>cmd/client/main.go\<close>) decodes from them.
\<close>

section \<open>Bodies\<close>

definition base64_digit :: "nat \<Rightarrow> char" where
  "base64_digit n =
    (if n < 26 then char_of (65 + n) else if n < 52 then char_of (71 + n) else if n < 62 then char_of (n - 4)
     else if n = 62 then CHR ''+'' else CHR ''/'')"

text \<open>The standard encoding, which \<open>encoding/json\<close> uses for byte slices.\<close>

fun base64 :: "nat list \<Rightarrow> string" where
  "base64 [] = []"
| "base64 [a] = [base64_digit (a div 4), base64_digit (a mod 4 * 16), CHR ''='', CHR ''='']"
| "base64 [a, b] = [base64_digit (a div 4), base64_digit (a mod 4 * 16 + b div 16), base64_digit (b mod 16 * 4), CHR ''='']"
| "base64 (a # b # c # r) =
    [base64_digit (a div 4), base64_digit (a mod 4 * 16 + b div 16), base64_digit (b mod 16 * 4 + c div 64), base64_digit (c mod 64)]
    @ base64 r"

fun encode_elems :: "string list \<Rightarrow> nat list" where
  "encode_elems [] = []"
| "encode_elems [s] = quote_string s"
| "encode_elems (s # ss) = quote_string s @ 44 # encode_elems ss"

text \<open>\<open>Encoder.Encode\<close> ends with a newline; maps are written in the order of their keys.\<close>

definition reply_body :: "nat list \<Rightarrow> response \<Rightarrow> nat list" where
  "reply_body static resp =
    (case rs_payload resp of
       Message m \<Rightarrow> encode_struct [(''message'', m)] @ [10]
     | Failure e \<Rightarrow> encode_struct [(''error'', e)] @ [10]
     | Logged_in u salt \<Rightarrow>
         encode_struct [(''message'', ''logged in''), (''salt'', base64 (map unat salt)), (''username'', u)] @ [10]
     | Sites sites \<Rightarrow> 123 # quote_string ''sites'' @ 58 # 91 # encode_elems sites @ [93, 125, 10]
     | Entry e \<Rightarrow>
         encode_struct [(''site'', pe_site e), (''username'', pe_username e), (''password'', pe_password e)] @ [10]
     | Health n \<Rightarrow>
         123 # quote_string ''chunks'' @ 58 # bytes_of (decimal n) @ 44 # quote_string ''status'' @ 58 # quote_string ''ok'' @ [125, 10]
     | Static \<Rightarrow> static
     | Empty \<Rightarrow>
         (if rs_status resp = 404 then bytes_of ''404 page not found'' @ [10]
          else if rs_status resp = 405 then bytes_of ''Method Not Allowed'' @ [10] else []))"

section \<open>What the client decodes\<close>

text \<open>
  \<open>json.Unmarshal\<close> into a map from strings to strings: the entries it has set, and whether there was an
  error. A value that is no string is an error but leaves an empty string.
\<close>

fun map_members :: "(nat list \<times> jval) list \<Rightarrow> (string \<rightharpoonup> string) \<times> bool \<Rightarrow> (string \<rightharpoonup> string) \<times> bool" where
  "map_members [] acc = acc"
| "map_members ((k, v) # ms) (m, bad) =
    map_members ms (m(string_of k \<mapsto> (case v of JStr s \<Rightarrow> string_of s | _ \<Rightarrow> [])),
      bad \<or> (case v of JStr _ \<Rightarrow> False | JNull \<Rightarrow> False | _ \<Rightarrow> True))"

definition decode_map :: "nat list \<Rightarrow> (string \<rightharpoonup> string) \<times> bool" where
  "decode_map data =
    (case decode_all data of
       Some (JObj ms) \<Rightarrow> map_members ms (Map.empty, False)
     | Some JNull \<Rightarrow> (Map.empty, False)
     | _ \<Rightarrow> (Map.empty, True))"

text \<open>The field \<open>sites\<close> of a struct, a slice of strings; the last occurrence counts.\<close>

fun decode_elems :: "jval list \<Rightarrow> string list \<times> bool" where
  "decode_elems [] = ([], False)"
| "decode_elems (v # vs) =
    (let (ss, bad) = decode_elems vs in
     case v of JStr s \<Rightarrow> (string_of s # ss, bad) | JNull \<Rightarrow> ([] # ss, bad) | _ \<Rightarrow> ([] # ss, True))"

fun sites_members :: "(nat list \<times> jval) list \<Rightarrow> string list \<times> bool \<Rightarrow> string list \<times> bool" where
  "sites_members [] acc = acc"
| "sites_members ((k, v) # ms) (ss, bad) =
    sites_members ms
      (if find_field [''sites''] k = None then (ss, bad)
       else (case v of JArr vs \<Rightarrow> (let (ss, b) = decode_elems vs in (ss, bad \<or> b)) | JNull \<Rightarrow> ([], bad) | _ \<Rightarrow> (ss, True)))"

definition decode_sites :: "nat list \<Rightarrow> string list option" where
  "decode_sites data =
    (let (ss, bad) = (case decode_all data of
        Some (JObj ms) \<Rightarrow> sites_members ms ([], False)
      | Some JNull \<Rightarrow> ([], False)
      | _ \<Rightarrow> ([], True))
     in if bad then None else Some ss)"

section \<open>Lemmas\<close>

lemma parse_struct_then:
  assumes "fs \<noteq> []" "2 * length (encode_struct fs) + 1 \<le> n"
  shows "parse_value n (encode_struct fs @ rest) = Some (JObj (map (\<lambda>(f, s). (coerced f, JStr (coerced s))) fs), rest)"
proof -
  obtain k where k: "n = Suc k" using assms(2) by (cases n) simp_all
  have "length fs < k" using length_encode_fields [of fs] assms(2) k by (simp add: encode_struct_def)
  from parse_members_encoded [OF assms(1) this, of rest]
  have "parse_members k (encode_fields fs @ 125 # rest) = Some (map (\<lambda>(f, s). (coerced f, JStr (coerced s))) fs, rest)" .
  moreover obtain t where "encode_fields fs = 34 # t" using encode_fields_quote [OF assms(1)] by blast
  ultimately show ?thesis by (simp add: k encode_struct_def)
qed

lemma decode_struct_line:
  "fs \<noteq> [] \<Longrightarrow> decode_all (encode_struct fs @ [10]) = Some (JObj (map (\<lambda>(f, s). (coerced f, JStr (coerced s))) fs))"
  by (simp add: decode_all_def parse_struct_then fuel_for_def del: parse_value.simps)

lemma string_of_coerced [simp]: "string_of (coerced s) = coerce_utf8 s"
  by (simp add: coerced_def string_of_runes)

lemma parse_elems_encoded:
  "ss \<noteq> [] \<Longrightarrow> length ss < n \<Longrightarrow> parse_elems n (encode_elems ss @ 93 # rest) = Some (map (\<lambda>s. JStr (coerced s)) ss, rest)"
proof (induction ss arbitrary: n rule: encode_elems.induct)
  case (2 s)
  then obtain k where n: "n = Suc k" "1 \<le> k" by (cases n) auto
  show ?case using parse_quoted [OF n(2)] by (simp add: n(1) coerced_def del: parse_value.simps)
next
  case (3 s t ss)
  then obtain k where n: "n = Suc k" "1 \<le> k" by (cases n) auto
  have "parse_elems k (encode_elems (t # ss) @ 93 # rest) = Some (map (\<lambda>s. JStr (coerced s)) (t # ss), rest)"
    using "3.IH" "3.prems" n(1) by simp
  then show ?case using parse_quoted [OF n(2)] by (simp add: n(1) coerced_def del: parse_value.simps)
qed simp

lemma length_encode_elems: "length ss \<le> length (encode_elems ss)"
  by (induction ss rule: encode_elems.induct) (simp_all add: quote_string_def)

lemma encode_elems_quote: "ss \<noteq> [] \<Longrightarrow> \<exists>t. encode_elems ss = 34 # t"
  by (cases ss rule: encode_elems.cases) (simp_all add: quote_string_def)

lemma parse_array_then:
  assumes "2 * length ss + 3 \<le> n"
  shows "parse_value n (91 # encode_elems ss @ 93 # rest) = Some (JArr (map (\<lambda>s. JStr (coerced s)) ss), rest)"
proof (cases "ss = []")
  case True
  then show ?thesis using assms by (cases n) simp_all
next
  case False
  obtain k where k: "n = Suc k" using assms by (cases n) simp_all
  have "parse_elems k (encode_elems ss @ 93 # rest) = Some (map (\<lambda>s. JStr (coerced s)) ss, rest)"
    using assms k by (intro parse_elems_encoded [OF False]) simp
  moreover obtain t where "encode_elems ss = 34 # t" using encode_elems_quote [OF False] by blast
  ultimately show ?thesis by (simp add: k)
qed

lemma decode_sites_line:
  "decode_all (123 # quote_string ''sites'' @ 58 # 91 # encode_elems ss @ [93, 125, 10])
    = Some (JObj [(bytes_of ''sites'', JArr (map (\<lambda>s. JStr (coerced s)) ss))])"
proof -
  let ?d = "123 # quote_string ''sites'' @ 58 # 91 # encode_elems ss @ [93, 125, 10]"
  obtain k where k: "fuel_for ?d = Suc (Suc k)" "2 * length ss + 3 \<le> k"
    using length_encode_elems [of ss] by (cases "fuel_for ?d - 2") (auto simp: fuel_for_def)
  have f: "parse_chars (escape (bytes_of ''sites'') @ 34 # t) = Some (bytes_of ''sites'', t)" for t
    using coerced_ascii [of "''sites''"] by (simp add: parse_chars_escape coerced_def)
  have "parse_members (Suc k) (quote_string ''sites'' @ 58 # 91 # encode_elems ss @ [93, 125, 10])
      = Some ([(bytes_of ''sites'', JArr (map (\<lambda>s. JStr (coerced s)) ss))], [10])"
    using parse_array_then [OF k(2), of "[125, 10]"] f by (simp add: quote_string_def del: parse_value.simps)
  then have "parse_value (Suc (Suc k)) ?d = Some (JObj [(bytes_of ''sites'', JArr (map (\<lambda>s. JStr (coerced s)) ss))], [10])"
    by (simp add: quote_string_def del: parse_members.simps)
  then show ?thesis unfolding decode_all_def k(1) by simp
qed

lemma decode_elems_strings: "decode_elems (map (\<lambda>s. JStr (coerced s)) ss) = (map coerce_utf8 ss, False)"
  by (induction ss) simp_all

lemma decode_sites_reply: "rs_payload resp = Sites ss \<Longrightarrow> decode_sites (reply_body static resp) = Some (map coerce_utf8 ss)"
  by (simp add: reply_body_def decode_sites_def decode_sites_line decode_elems_strings find_field_own)

lemma decode_map_failure: "rs_payload resp = Failure e \<Longrightarrow> decode_map (reply_body static resp) = ([''error'' \<mapsto> coerce_utf8 e], False)"
  by (simp add: reply_body_def decode_map_def decode_struct_line coerce_utf8_ascii)

lemma decode_map_entry:
  "rs_payload resp = Entry e \<Longrightarrow> decode_map (reply_body static resp) =
    ([''site'' \<mapsto> coerce_utf8 (pe_site e), ''username'' \<mapsto> coerce_utf8 (pe_username e), ''password'' \<mapsto> coerce_utf8 (pe_password e)], False)"
  by (simp add: reply_body_def decode_map_def decode_struct_line coerce_utf8_ascii)

end
