(* ===== verification/Tls.thy ===== *)
theory Tls
  imports Go_Text
begin

text \<open>
  TLS configurations (\<open>pkg/crypto/tls.go\<close>, and the variant for the REST API in
  \<open>cmd/master/main.go\<close>). Certificates and pools are opaque; the outcome of loading the key pair and
  of reading the CA file are arguments, and so is the parser of PEM certificates. The functions
  \<open>net.SplitHostPort\<close> and \<open>net.ParseIP\<close>, which decide the server name, are written out.
\<close>

section \<open>Host and port\<close>

abbreviation colon :: char where
  "colon \<equiv> CHR '':''"

text \<open>The text before the last \<open>c\<close> and the text after it.\<close>

fun split_last :: "char \<Rightarrow> string \<Rightarrow> (string \<times> string) option" where
  "split_last c [] = None"
| "split_last c (x # s) =
    (case split_last c s of
       Some (a, b) \<Rightarrow> Some (x # a, b)
     | None \<Rightarrow> if x = c then Some ([], s) else None)"

text \<open>An address in brackets must end with the bracket and the last colon.\<close>

definition split_host_port :: "string \<Rightarrow> (string \<times> string) option" where
  "split_host_port hp =
    (case split_last colon hp of
       None \<Rightarrow> None
     | Some (a, port) \<Rightarrow>
         if hp \<noteq> [] \<and> hd hp = CHR ''[''
         then
           (if a \<noteq> [] \<and> last a = CHR '']'' \<and> CHR '']'' \<notin> set (butlast a)
               \<and> CHR ''['' \<notin> set (tl hp) \<and> CHR '']'' \<notin> set port
            then Some (tl (butlast a), port) else None)
         else if colon \<in> set a \<or> CHR ''['' \<in> set hp \<or> CHR '']'' \<in> set hp then None
         else Some (a, port))"

section \<open>IP addresses\<close>

definition dec_value :: "char \<Rightarrow> nat option" where
  "dec_value c = (let n = of_char c in if 48 \<le> n \<and> n \<le> 57 then Some (n - 48) else None)"

text \<open>
  \<open>parseIPv4Fields\<close>: the value and the number of digits of the field being read, and the number of
  the field. A dot that begins the text or follows a dot comes when no digit has been read.
\<close>

fun ipv4_fields :: "nat \<Rightarrow> nat \<Rightarrow> nat \<Rightarrow> string \<Rightarrow> bool" where
  "ipv4_fields val digLen pos [] \<longleftrightarrow> 3 \<le> pos"
| "ipv4_fields val digLen pos (c # s) \<longleftrightarrow>
    (case dec_value c of
       Some d \<Rightarrow>
         \<not> (digLen = 1 \<and> val = 0) \<and> val * 10 + d \<le> 255 \<and> ipv4_fields (val * 10 + d) (digLen + 1) pos s
     | None \<Rightarrow> c = CHR ''.'' \<and> digLen \<noteq> 0 \<and> s \<noteq> [] \<and> pos \<noteq> 3 \<and> ipv4_fields 0 0 (pos + 1) s)"

text \<open>
  \<open>parseIPv6\<close>: the position in the address, whether an ellipsis has been seen, and the rest of
  the text.
\<close>

definition ipv6_finish :: "nat \<Rightarrow> bool \<Rightarrow> string \<Rightarrow> bool" where
  "ipv6_finish i ellipsis s \<longleftrightarrow> s = [] \<and> (if i < 16 then ellipsis else \<not> ellipsis)"

function ipv6_groups :: "nat \<Rightarrow> bool \<Rightarrow> string \<Rightarrow> bool" where
  "ipv6_groups i ellipsis s =
    (if 16 \<le> i then ipv6_finish i ellipsis s
     else
       (let ds = takeWhile (\<lambda>c. hex_value c \<noteq> None) s; rest = drop (length ds) s in
        if ds = [] \<or> 4 < length ds then False
        else
          (case rest of
             [] \<Rightarrow> ipv6_finish (i + 2) ellipsis []
           | c # more \<Rightarrow>
               if c = CHR ''.''
               then (ellipsis \<or> i = 12) \<and> i + 4 \<le> 16 \<and> ipv4_fields 0 0 0 s \<and> ipv6_finish (i + 4) ellipsis []
               else if c \<noteq> colon \<or> more = [] then False
               else if hd more = colon
               then \<not> ellipsis \<and> (if tl more = [] then ipv6_finish (i + 2) True [] else ipv6_groups (i + 2) True (tl more))
               else ipv6_groups (i + 2) ellipsis more)))"
  by pat_completeness auto
termination
  by (relation "measure (\<lambda>(i, _). 16 - i)") auto

declare ipv6_groups.simps [simp del]

text \<open>\<open>ParseIP\<close> accepts no zone, so no percent sign.\<close>

definition is_ipv6 :: "string \<Rightarrow> bool" where
  "is_ipv6 s \<longleftrightarrow> CHR ''%'' \<notin> set s \<and>
    (if take 2 s = [colon, colon] then drop 2 s = [] \<or> ipv6_groups 0 True (drop 2 s) else ipv6_groups 0 False s)"

definition is_ip :: "string \<Rightarrow> bool" where
  "is_ip s =
    (case find (\<lambda>c. c \<in> {CHR ''.'', colon, CHR ''%''}) s of
       Some c \<Rightarrow> if c = CHR ''.'' then ipv4_fields 0 0 0 s else if c = colon then is_ipv6 s else False
     | None \<Rightarrow> False)"

section \<open>Configurations\<close>

datatype client_auth = No_client_cert | Require_and_verify_client_cert

record ('c, 'p) tls_config =
  tc_certificates :: "'c list"
  tc_min_version :: nat
  tc_root_cas :: "'p option"
  tc_server_name :: string
  tc_client_cas :: "'p option"
  tc_client_auth :: client_auth

text \<open>\<open>tls.VersionTLS13\<close> is 0x0304.\<close>

definition load_tls_config ::
  "(bytes \<Rightarrow> 'p option) \<Rightarrow> string + 'c \<Rightarrow> string + bytes \<Rightarrow> bool \<Rightarrow> string + ('c, 'p) tls_config" where
  "load_tls_config parse_pem key_pair ca_file isServer =
    (case key_pair of
       Inl err \<Rightarrow> Inl (''load key pair: '' @ err)
     | Inr cert \<Rightarrow>
         (case ca_file of
            Inl err \<Rightarrow> Inl (''read CA cert: '' @ err)
          | Inr caCert \<Rightarrow>
              (case parse_pem caCert of
                 None \<Rightarrow> Inl ''failed to add CA cert''
               | Some caPool \<Rightarrow>
                   let cfg = \<lparr>tc_certificates = [cert], tc_min_version = 0x0304, tc_root_cas = Some caPool,
                     tc_server_name = ''localhost'', tc_client_cas = None, tc_client_auth = No_client_cert\<rparr>
                   in Inr (if isServer
                           then cfg\<lparr>tc_client_cas := Some caPool, tc_client_auth := Require_and_verify_client_cert\<rparr>
                           else cfg))))"

definition prepare_client_tls_config :: "('c, 'p) tls_config \<Rightarrow> string \<Rightarrow> ('c, 'p) tls_config" where
  "prepare_client_tls_config cfg targetAddr =
    (let host = (case split_host_port targetAddr of Some (h, _) \<Rightarrow> h | None \<Rightarrow> targetAddr);
         newCfg = (if is_ip host then cfg\<lparr>tc_server_name := ''localhost''\<rparr> else cfg\<lparr>tc_server_name := host\<rparr>)
     in if tc_server_name newCfg = [] then newCfg\<lparr>tc_server_name := ''localhost''\<rparr> else newCfg)"

text \<open>The REST API's copy asks for no client certificate.\<close>

definition http_tls_config :: "('c, 'p) tls_config \<Rightarrow> ('c, 'p) tls_config" where
  "http_tls_config cfg = cfg\<lparr>tc_client_auth := No_client_cert, tc_client_cas := None\<rparr>"

section \<open>Lemmas\<close>

lemma split_last_append: "c \<notin> set b \<Longrightarrow> split_last c (a @ c # b) = Some (a, b)"
proof (induction a)
  case Nil
  have "split_last c b = None" using Nil by (induction b) auto
  then show ?case by simp
qed simp

lemma split_host_port_plain:
  assumes "colon \<notin> set h \<union> set p" "CHR ''['' \<notin> set h \<union> set p" "CHR '']'' \<notin> set h \<union> set p"
  shows "split_host_port (h @ colon # p) = Some (h, p)"
  using assms split_last_append [of colon p h]
  by (cases h) (auto simp: split_host_port_def)

lemma prepare_server_name:
  "tc_server_name (prepare_client_tls_config cfg t) =
    (let host = (case split_host_port t of Some (h, _) \<Rightarrow> h | None \<Rightarrow> t)
     in if is_ip host \<or> host = [] then ''localhost'' else host)"
  by (simp add: prepare_client_tls_config_def Let_def)

lemma prepare_other_fields:
  "prepare_client_tls_config cfg t = cfg\<lparr>tc_server_name := tc_server_name (prepare_client_tls_config cfg t)\<rparr>"
  by (simp add: prepare_client_tls_config_def Let_def)

lemma prepare_keeps:
  "tc_certificates (prepare_client_tls_config cfg t) = tc_certificates cfg" "tc_root_cas (prepare_client_tls_config cfg t) = tc_root_cas cfg"
  by (simp_all add: prepare_client_tls_config_def Let_def)

lemma dec_value_digit: "d < 10 \<Longrightarrow> dec_value (char_of (48 + d)) = Some d"
  by (simp add: dec_value_def Let_def)

lemma decimal_small:
  "n < 10 \<Longrightarrow> decimal n = [char_of (48 + n)]"
  "10 \<le> n \<Longrightarrow> n < 100 \<Longrightarrow> decimal n = [char_of (48 + n div 10), char_of (48 + n mod 10)]"
  "100 \<le> n \<Longrightarrow> n < 1000 \<Longrightarrow> decimal n = [char_of (48 + n div 100), char_of (48 + n div 10 mod 10), char_of (48 + n mod 10)]"
proof -
  have "n div 100 < 10" "\<not> n div 10 < 10" if "100 \<le> n" "n < 1000" using that by linarith+
  then show "100 \<le> n \<Longrightarrow> n < 1000 \<Longrightarrow> decimal n = [char_of (48 + n div 100), char_of (48 + n div 10 mod 10), char_of (48 + n mod 10)]"
    by (simp add: decimal.simps [of n] decimal.simps [of "n div 10"] decimal.simps [of "n div 100"] div_mult2_eq [symmetric])
qed (simp_all add: decimal.simps [of n] decimal.simps [of "n div 10"])

lemma ipv4_fields_decimal:
  assumes "n < 256"
  shows "ipv4_fields 0 0 pos (decimal n @ s) \<longleftrightarrow> ipv4_fields n (length (decimal n)) pos s"
proof -
  consider "n < 10" | "10 \<le> n" "n < 100" | "100 \<le> n" "n < 1000" using assms by linarith
  then show ?thesis
  proof cases
    case 1
    then show ?thesis by (simp add: decimal_small dec_value_digit)
  next
    case 2
    then have "0 < n div 10" "n div 10 < 10" "n div 10 * 10 + n mod 10 = n" by auto
    moreover have "n div 10 \<le> 255" using \<open>n div 10 < 10\<close> by linarith
    ultimately show ?thesis using 2 assms by (simp add: decimal_small dec_value_digit numeral_2_eq_2 del: One_nat_def)
  next
    case 3
    have "0 < n div 100" "n div 100 < 10" "n div 100 * 10 + n div 10 mod 10 = n div 10" "n div 10 * 10 + n mod 10 = n"
      "0 < n div 10" "n div 10 \<le> 255"
      using 3 assms div_mult2_eq [of n 10 10] by auto
    then show ?thesis using 3 assms by (simp add: decimal_small dec_value_digit)
  qed
qed

definition dotted :: "nat \<Rightarrow> nat \<Rightarrow> nat \<Rightarrow> nat \<Rightarrow> string" where
  "dotted a b c d = decimal a @ CHR ''.'' # decimal b @ CHR ''.'' # decimal c @ CHR ''.'' # decimal d"

lemma decimal_chars: "x \<in> set (decimal n) \<Longrightarrow> dec_value x \<noteq> None"
proof (induction n rule: decimal.induct)
  case (1 n)
  then show ?case
    by (cases "n < 10") (auto simp: decimal.simps [of n] dec_value_digit)
qed

lemma decimal_no_punctuation:
  "colon \<notin> set (decimal n)" "CHR ''['' \<notin> set (decimal n)" "CHR '']'' \<notin> set (decimal n)"
  "CHR ''.'' \<notin> set (decimal n)" "CHR ''%'' \<notin> set (decimal n)"
proof -
  have "dec_value colon = None" "dec_value (CHR ''['') = None" "dec_value (CHR '']'') = None"
    "dec_value (CHR ''.'') = None" "dec_value (CHR ''%'') = None"
    by (simp_all add: dec_value_def)
  then show "colon \<notin> set (decimal n)" "CHR ''['' \<notin> set (decimal n)" "CHR '']'' \<notin> set (decimal n)"
    "CHR ''.'' \<notin> set (decimal n)" "CHR ''%'' \<notin> set (decimal n)"
    using decimal_chars [of _ n] by metis+
qed

lemma decimal_nonempty [simp]: "decimal n \<noteq> []"
  by (simp add: decimal.simps [of n])

lemma dotted_is_ip:
  assumes "a < 256" "b < 256" "c < 256" "d < 256"
  shows "is_ip (dotted a b c d)"
proof -
  have skip: "find P (xs @ ys) = find P ys" if "\<forall>x \<in> set xs. \<not> P x" for P and xs ys :: string
    using that by (induction xs) auto
  have "find (\<lambda>c. c \<in> {CHR ''.'', colon, CHR ''%''}) (dotted a b c d) = Some (CHR ''.'')"
    unfolding dotted_def using decimal_no_punctuation [of a] by (subst skip) auto
  moreover have "dec_value (CHR ''.'') = None" by (simp add: dec_value_def)
  then have "ipv4_fields 0 0 0 (dotted a b c d)"
    unfolding dotted_def using ipv4_fields_decimal [of d 3 "[]"] assms
    by (simp add: ipv4_fields_decimal eval_nat_numeral)
  ultimately show ?thesis by (simp add: is_ip_def)
qed

section \<open>Properties\<close>

text \<open>Claim C26. The configuration for a connection differs from the loaded one only in the server name, which is never
  empty: for a host and a port it is the host, unless that is empty or an IP address, in
  particular any IPv4 address in decimal, when it is \<open>localhost\<close>; and an address without a port is taken as
  the host.\<close>

theorem server_name_of_target:
  assumes "colon \<notin> set h \<union> set p" "CHR ''['' \<notin> set h \<union> set p" "CHR '']'' \<notin> set h \<union> set p"
    and "a < 256" "b < 256" "c < 256" "d < 256"
  shows "prepare_client_tls_config cfg t = cfg\<lparr>tc_server_name := tc_server_name (prepare_client_tls_config cfg t)\<rparr>
    \<and> tc_server_name (prepare_client_tls_config cfg t) \<noteq> []
    \<and> tc_server_name (prepare_client_tls_config cfg (h @ colon # p)) = (if is_ip h \<or> h = [] then ''localhost'' else h)
    \<and> tc_server_name (prepare_client_tls_config cfg (dotted a b c d @ colon # p)) = ''localhost''
    \<and> (h \<noteq> [] \<longrightarrow> tc_server_name (prepare_client_tls_config cfg h) = (if is_ip h then ''localhost'' else h))"
proof -
  have split_h: "split_host_port h = None"
  proof -
    have "split_last colon h = None" using assms(1) by (induction h) auto
    then show ?thesis by (simp add: split_host_port_def)
  qed
  have plain: "split_host_port (dotted a b c d @ colon # p) = Some (dotted a b c d, p)"
    using assms(1-3) decimal_no_punctuation by (intro split_host_port_plain) (auto simp: dotted_def)
  have "tc_server_name (prepare_client_tls_config cfg t) \<noteq> []"
    by (auto simp: prepare_server_name Let_def)
  then show ?thesis
    using split_host_port_plain [OF assms(1-3)] plain split_h dotted_is_ip [OF assms(4-7)]
    by (intro conjI prepare_other_fields) (simp_all add: prepare_server_name Let_def)
qed

theorem server_name_of_target_witness:
  "tc_server_name (prepare_client_tls_config
      \<lparr>tc_certificates = [()], tc_min_version = 0x0304, tc_root_cas = Some (), tc_server_name = ''localhost'',
        tc_client_cas = None, tc_client_auth = No_client_cert\<rparr> ''10.128.0.5:9001'') = ''localhost''"
proof -
  have "''10.128.0.5:9001'' = dotted 10 128 0 5 @ colon # ''9001''"
    by (simp add: dotted_def decimal.simps char_eq_char_of)
  then show ?thesis
    by (simp only:) (use server_name_of_target [of "''h''" "''9001''" 10 128 0 5] in auto)
qed

end
