(* ===== verification/Cli.thy ===== *)
theory Cli
  imports Replies Tls
begin

text \<open>
  The command line client (\<open>cmd/client/main.go\<close>): the small HTTP client and the read-eval-print loop.
  Both are written over any state \<open>'w\<close> of the rest of the world and a function that exchanges
  a request for a reply or an error; the last section plugs in the REST API. The input is the list of lines that the
  scanner delivers, the output the list of printed texts. Lines beyond the scanner's limit of 64 KB
  are left out.
\<close>

section \<open>The HTTP client\<close>

record reply =
  rp_status :: nat
  rp_cookie :: "string option"
  rp_body :: "nat list"

type_synonym 'w send = "request \<Rightarrow> 'w \<Rightarrow> (string + reply) \<times> 'w"

text \<open>A request to a path with a query; the cookie is sent when there is one.\<close>

definition request_for :: "string option \<Rightarrow> string \<Rightarrow> string \<Rightarrow> string \<Rightarrow> request" where
  "request_for ck m url body =
    (let (path, query) = str_cut (CHR ''?'') url
     in \<lparr>rq_method = m, rq_path = path, rq_origin = [], rq_cookie = ck, rq_site = query_get ''site'' query, rq_body = body\<rparr>)"

definition api_post :: "'w send \<Rightarrow> string option \<Rightarrow> string \<Rightarrow> (string \<times> string) list \<Rightarrow> 'w \<Rightarrow> (string + reply) \<times> 'w" where
  "api_post send ck path body w = send (request_for ck ''POST'' path (string_of (encode_struct body))) w"

definition api_get :: "'w send \<Rightarrow> string option \<Rightarrow> string \<Rightarrow> 'w \<Rightarrow> (string + reply) \<times> 'w" where
  "api_get send ck path w = send (request_for ck ''GET'' path []) w"

definition api_delete :: "'w send \<Rightarrow> string option \<Rightarrow> string \<Rightarrow> 'w \<Rightarrow> (string + reply) \<times> 'w" where
  "api_delete send ck path w = send (request_for ck ''DELETE'' path []) w"

text \<open>The error for a reply with another status: the server's message when there is one.\<close>

definition api_failure :: "string \<Rightarrow> reply \<Rightarrow> string" where
  "api_failure what rp =
    (case fst (decode_map (rp_body rp)) ''error'' of
       Some msg \<Rightarrow> msg
     | None \<Rightarrow> what @ '' failed (HTTP '' @ decimal (rp_status rp) @ '')'')"

definition api_register :: "'w send \<Rightarrow> string option \<Rightarrow> string \<Rightarrow> string \<Rightarrow> 'w \<Rightarrow> string option \<times> 'w" where
  "api_register send ck username password w =
    (case api_post send ck ''/auth/register'' [(''password'', password), (''username'', username)] w of
       (Inl err, w) \<Rightarrow> (Some err, w)
     | (Inr rp, w) \<Rightarrow>
         (if rp_status rp \<noteq> 200 \<and> rp_status rp \<noteq> 201 then Some (api_failure ''registration'' rp) else None, w))"

text \<open>A login also returns the session cookie it leaves the client with.\<close>

definition api_login ::
  "'w send \<Rightarrow> string option \<Rightarrow> string \<Rightarrow> string \<Rightarrow> 'w \<Rightarrow> (string option \<times> string option) \<times> 'w" where
  "api_login send ck username password w =
    (case api_post send ck ''/auth/login'' [(''password'', password), (''username'', username)] w of
       (Inl err, w) \<Rightarrow> ((Some err, ck), w)
     | (Inr rp, w) \<Rightarrow>
         if rp_status rp \<noteq> 200 then ((Some (api_failure ''login'' rp), ck), w)
         else ((None, case rp_cookie rp of Some v \<Rightarrow> Some v | None \<Rightarrow> ck), w))"

definition api_list :: "'w send \<Rightarrow> string option \<Rightarrow> 'w \<Rightarrow> (string + string list) \<times> 'w" where
  "api_list send ck w =
    (case api_get send ck ''/vault/list'' w of
       (Inl err, w) \<Rightarrow> (Inl err, w)
     | (Inr rp, w) \<Rightarrow>
         if rp_status rp \<noteq> 200 then (Inl (api_failure ''list'' rp), w)
         else (case decode_sites (rp_body rp) of None \<Rightarrow> (Inl ''json'', w) | Some sites \<Rightarrow> (Inr sites, w)))"

definition api_get_entry :: "'w send \<Rightarrow> string option \<Rightarrow> string \<Rightarrow> 'w \<Rightarrow> (string + (string \<rightharpoonup> string)) \<times> 'w" where
  "api_get_entry send ck site w =
    (case api_get send ck (''/vault/get?site='' @ query_escape (trim_space site)) w of
       (Inl err, w) \<Rightarrow> (Inl err, w)
     | (Inr rp, w) \<Rightarrow>
         if rp_status rp \<noteq> 200 then (Inl (api_failure ''get'' rp), w)
         else (let (result, bad) = decode_map (rp_body rp) in (if bad then Inl ''json'' else Inr result, w)))"

definition api_save :: "'w send \<Rightarrow> string option \<Rightarrow> string \<Rightarrow> string \<Rightarrow> string \<Rightarrow> 'w \<Rightarrow> string option \<times> 'w" where
  "api_save send ck site username password w =
    (case api_post send ck ''/vault/save'' [(''password'', password), (''site'', site), (''username'', username)] w of
       (Inl err, w) \<Rightarrow> (Some err, w)
     | (Inr rp, w) \<Rightarrow> (if rp_status rp \<noteq> 200 then Some (api_failure ''save'' rp) else None, w))"

definition api_delete_entry :: "'w send \<Rightarrow> string option \<Rightarrow> string \<Rightarrow> 'w \<Rightarrow> string option \<times> 'w" where
  "api_delete_entry send ck site w =
    (case api_delete send ck (''/vault/delete?site='' @ query_escape (trim_space site)) w of
       (Inl err, w) \<Rightarrow> (Some err, w)
     | (Inr rp, w) \<Rightarrow> (if rp_status rp \<noteq> 200 then Some (api_failure ''delete'' rp) else None, w))"

section \<open>The loop\<close>

record 'w cli =
  cli_in :: "string list"
  cli_out :: "string list"
  cli_user :: string
  cli_cookie :: "string option"
  cli_world :: 'w

definition cli_print :: "string \<Rightarrow> 'w cli \<Rightarrow> 'w cli" where
  "cli_print s c = c\<lparr>cli_out := cli_out c @ [s]\<rparr>"

definition newline :: string where
  "newline = [char_of (10 :: nat)]"

definition cli_println :: "string \<Rightarrow> 'w cli \<Rightarrow> 'w cli" where
  "cli_println s c = cli_print (s @ newline) c"

text \<open>A prompt and the trimmed answer; at the end of the input the answer is empty.\<close>

definition cli_ask :: "string \<Rightarrow> 'w cli \<Rightarrow> string \<times> 'w cli" where
  "cli_ask prompt c =
    (let c = cli_print prompt c in
     case cli_in c of [] \<Rightarrow> ([], c) | l # ls \<Rightarrow> (trim_space l, c\<lparr>cli_in := ls\<rparr>))"

definition cli_register :: "'w send \<Rightarrow> 'w cli \<Rightarrow> 'w cli" where
  "cli_register send c =
    (let (username, c) = cli_ask ''Username: '' c;
         (password, c) = cli_ask ''Master password: '' c
     in if length password < 8 then cli_println ''Error: password must be at least 8 characters'' c
        else
          (case api_register send (cli_cookie c) username password (cli_world c) of
             (Some err, w) \<Rightarrow> cli_println (''Error: '' @ err) (c\<lparr>cli_world := w\<rparr>)
           | (None, w) \<Rightarrow> cli_println ''Registered successfully.'' (c\<lparr>cli_world := w\<rparr>)))"

definition cli_login :: "'w send \<Rightarrow> 'w cli \<Rightarrow> 'w cli" where
  "cli_login send c =
    (let (username, c) = cli_ask ''Username: '' c;
         (password, c) = cli_ask ''Master password: '' c
     in case api_login send (cli_cookie c) username password (cli_world c) of
          ((Some err, ck), w) \<Rightarrow> cli_println (''Login failed: '' @ err) (c\<lparr>cli_cookie := ck, cli_world := w\<rparr>)
        | ((None, ck), w) \<Rightarrow>
            cli_println ''Logged in. Commands: save, get, list, delete, logout''
              (c\<lparr>cli_cookie := ck, cli_world := w, cli_user := username\<rparr>))"

definition cli_please_login :: "'w cli \<Rightarrow> 'w cli" where
  "cli_please_login c = cli_println ''Please login first.'' c"

definition cli_save :: "'w send \<Rightarrow> 'w cli \<Rightarrow> 'w cli" where
  "cli_save send c =
    (if cli_user c = [] then cli_please_login c
     else
       let (site, c) = cli_ask ''Site: '' c;
           (user, c) = cli_ask ''Username: '' c;
           (pass, c) = cli_ask ''Password: '' c
       in case api_save send (cli_cookie c) site user pass (cli_world c) of
            (Some err, w) \<Rightarrow> cli_println (''Error: '' @ err) (c\<lparr>cli_world := w\<rparr>)
          | (None, w) \<Rightarrow> cli_println ''Saved.'' (c\<lparr>cli_world := w\<rparr>))"

text \<open>The site is the rest of the command line when there is more than the command, and asked for otherwise.\<close>

definition cli_site :: "string \<Rightarrow> string \<Rightarrow> string list \<Rightarrow> 'w cli \<Rightarrow> string \<times> 'w cli" where
  "cli_site command line parts c =
    (if 1 < length parts then (trim_space (trim_prefix line command), c) else cli_ask ''Site: '' c)"

definition entry_lines :: "(string \<rightharpoonup> string) \<Rightarrow> string list" where
  "entry_lines entry =
    (let field = (\<lambda>k. case entry k of Some v \<Rightarrow> v | None \<Rightarrow> [])
     in [''  Site:     '' @ field ''site'' @ newline, ''  Username: '' @ field ''username'' @ newline,
         ''  Password: '' @ field ''password'' @ newline])"

definition cli_get :: "'w send \<Rightarrow> string \<Rightarrow> string list \<Rightarrow> 'w cli \<Rightarrow> 'w cli" where
  "cli_get send line parts c =
    (if cli_user c = [] then cli_please_login c
     else
       let (site, c) = cli_site ''get'' line parts c
       in case api_get_entry send (cli_cookie c) site (cli_world c) of
            (Inl err, w) \<Rightarrow> cli_println (''Error: '' @ err) (c\<lparr>cli_world := w\<rparr>)
          | (Inr entry, w) \<Rightarrow> fold cli_print (entry_lines entry) (c\<lparr>cli_world := w\<rparr>))"

definition cli_list :: "'w send \<Rightarrow> 'w cli \<Rightarrow> 'w cli" where
  "cli_list send c =
    (if cli_user c = [] then cli_please_login c
     else
       (case api_list send (cli_cookie c) (cli_world c) of
          (Inl err, w) \<Rightarrow> cli_println (''Error: '' @ err) (c\<lparr>cli_world := w\<rparr>)
        | (Inr sites, w) \<Rightarrow>
            if sites = [] then cli_println ''No passwords stored.'' (c\<lparr>cli_world := w\<rparr>)
            else fold (\<lambda>s. cli_println (''  - '' @ s)) sites (cli_println ''Stored sites:'' (c\<lparr>cli_world := w\<rparr>))))"

definition cli_delete :: "'w send \<Rightarrow> string \<Rightarrow> string list \<Rightarrow> 'w cli \<Rightarrow> 'w cli" where
  "cli_delete send line parts c =
    (if cli_user c = [] then cli_please_login c
     else
       let (site, c) = cli_site ''delete'' line parts c
       in case api_delete_entry send (cli_cookie c) site (cli_world c) of
            (Some err, w) \<Rightarrow> cli_println (''Error: '' @ err) (c\<lparr>cli_world := w\<rparr>)
          | (None, w) \<Rightarrow> cli_println ''Deleted.'' (c\<lparr>cli_world := w\<rparr>))"

definition cli_logout :: "'w cli \<Rightarrow> 'w cli" where
  "cli_logout c = cli_println ''Logged out.'' (c\<lparr>cli_user := []\<rparr>)"

definition cli_unknown :: "string \<Rightarrow> 'w cli \<Rightarrow> 'w cli" where
  "cli_unknown command c =
    cli_println (if cli_user c \<noteq> [] then ''Commands: save, get, list, delete, logout, exit'' else ''Commands: register, login, exit'')
      (cli_println (''Unknown command: '' @ command) c)"

text \<open>One line of input, and whether the program goes on.\<close>

definition cli_line :: "'w send \<Rightarrow> string \<Rightarrow> 'w cli \<Rightarrow> bool \<times> 'w cli" where
  "cli_line send text c =
    (let line = trim_space text; parts = string_fields line in
     case parts of
       [] \<Rightarrow> (True, c)
     | command # _ \<Rightarrow>
         if command = ''register'' then (True, cli_register send c)
         else if command = ''login'' then (True, cli_login send c)
         else if command = ''save'' then (True, cli_save send c)
         else if command = ''get'' then (True, cli_get send line parts c)
         else if command = ''list'' then (True, cli_list send c)
         else if command = ''delete'' then (True, cli_delete send line parts c)
         else if command = ''logout'' then (True, cli_logout c)
         else if command \<in> {''exit'', ''quit''} then (False, cli_println ''Bye.'' c)
         else (True, cli_unknown command c))"

definition cli_prompt :: "'w cli \<Rightarrow> string" where
  "cli_prompt c = (if cli_user c \<noteq> [] then ''['' @ cli_user c @ ''] > '' else ''> '')"

section \<open>No command gives input back\<close>

lemma cli_print_simps [simp]:
  "cli_in (cli_print s c) = cli_in c" "cli_user (cli_print s c) = cli_user c" "cli_cookie (cli_print s c) = cli_cookie c"
  "cli_world (cli_print s c) = cli_world c" "cli_out (cli_print s c) = cli_out c @ [s]"
  by (simp_all add: cli_print_def)

lemma cli_println_simps [simp]:
  "cli_in (cli_println s c) = cli_in c" "cli_user (cli_println s c) = cli_user c" "cli_cookie (cli_println s c) = cli_cookie c"
  "cli_world (cli_println s c) = cli_world c" "cli_out (cli_println s c) = cli_out c @ [s @ newline]"
  by (simp_all add: cli_println_def)

lemma cli_print_list_simps [simp]:
  "cli_in (fold cli_print ls c) = cli_in c" "cli_user (fold cli_print ls c) = cli_user c"
  "cli_cookie (fold cli_print ls c) = cli_cookie c" "cli_world (fold cli_print ls c) = cli_world c"
  "cli_out (fold cli_print ls c) = cli_out c @ ls"
  by (induction ls arbitrary: c) simp_all

lemma cli_println_list_simps [simp]:
  "cli_in (fold (\<lambda>s. cli_println (f s)) ls c) = cli_in c" "cli_user (fold (\<lambda>s. cli_println (f s)) ls c) = cli_user c"
  "cli_cookie (fold (\<lambda>s. cli_println (f s)) ls c) = cli_cookie c" "cli_world (fold (\<lambda>s. cli_println (f s)) ls c) = cli_world c"
  by (induction ls arbitrary: c) simp_all

lemma cli_ask_in: "length (cli_in (snd (cli_ask p c))) \<le> length (cli_in c)"
  by (simp add: cli_ask_def Let_def split: list.split)

lemma cli_site_in: "length (cli_in (snd (cli_site w l ps c))) \<le> length (cli_in c)"
  by (simp add: cli_site_def cli_ask_in)

lemma cli_two_questions_in: "length (cli_in (snd (cli_ask q (snd (cli_ask p c))))) \<le> length (cli_in c)"
  using cli_ask_in [of p c] cli_ask_in [of q "snd (cli_ask p c)"] by simp

lemma cli_commands_in:
  "length (cli_in (cli_register send c)) \<le> length (cli_in c)" "length (cli_in (cli_login send c)) \<le> length (cli_in c)"
  "length (cli_in (cli_save send c)) \<le> length (cli_in c)" "length (cli_in (cli_get send l ps c)) \<le> length (cli_in c)"
  "length (cli_in (cli_list send c)) \<le> length (cli_in c)" "length (cli_in (cli_delete send l ps c)) \<le> length (cli_in c)"
proof -
  have two: "length (cli_in (snd (cli_ask q (snd (cli_ask p c))))) \<le> length (cli_in c)" for p q
    by (rule cli_two_questions_in)
  have three: "length (cli_in (snd (cli_ask q (snd (cli_ask p (snd (cli_ask h c))))))) \<le> length (cli_in c)" for h p q
    using cli_two_questions_in [of q p "snd (cli_ask h c)"] cli_ask_in [of h c] by simp
  show "length (cli_in (cli_register send c)) \<le> length (cli_in c)"
    using two [of "''Master password: ''" "''Username: ''"]
    by (auto simp: cli_register_def Let_def split: prod.split option.split)
  show "length (cli_in (cli_login send c)) \<le> length (cli_in c)"
    using two [of "''Master password: ''" "''Username: ''"]
    by (auto simp: cli_login_def Let_def split: prod.split option.split)
  show "length (cli_in (cli_save send c)) \<le> length (cli_in c)"
    using three [of "''Password: ''" "''Username: ''" "''Site: ''"]
    by (auto simp: cli_save_def cli_please_login_def Let_def split: prod.split option.split)
  show "length (cli_in (cli_get send l ps c)) \<le> length (cli_in c)"
    using cli_site_in [of "''get''" l ps c]
    by (auto simp: cli_get_def cli_please_login_def Let_def split: prod.split sum.split)
  show "length (cli_in (cli_delete send l ps c)) \<le> length (cli_in c)"
    using cli_site_in [of "''delete''" l ps c]
    by (auto simp: cli_delete_def cli_please_login_def Let_def split: prod.split option.split)
  show "length (cli_in (cli_list send c)) \<le> length (cli_in c)"
    by (auto simp: cli_list_def cli_please_login_def Let_def split: prod.split sum.split)
qed

lemma cli_line_in: "length (cli_in (snd (cli_line send text c))) \<le> length (cli_in c)"
  by (auto simp: cli_line_def Let_def cli_commands_in cli_logout_def cli_unknown_def split: list.split)

text \<open>The loop ends because every round reads a line.\<close>

function repl :: "'w send \<Rightarrow> 'w cli \<Rightarrow> 'w cli" where
  "repl send c =
    (let c = cli_print (cli_prompt c) c in
     case cli_in c of
       [] \<Rightarrow> c
     | text # ls \<Rightarrow>
         (case cli_line send text (c\<lparr>cli_in := ls\<rparr>) of
            (goes_on, c) \<Rightarrow> if goes_on then repl send c else c))"
  by pat_completeness auto
termination
proof (relation "measure (\<lambda>(_, c). length (cli_in c))", goal_cases)
  case (2 send c c1 l ls goes_on c2)
  have "c2 = snd (cli_line send l (c1\<lparr>cli_in := ls\<rparr>))" using 2(3) by (metis snd_conv)
  then show ?case using cli_line_in [of send l "c1\<lparr>cli_in := ls\<rparr>"] 2(1,2) by simp
qed simp

declare repl.simps [simp del]

section \<open>The start of the program\<close>

text \<open>The address of the REST API: the flag \<open>-http\<close>, or the host of the master's address on port 8443; the
  slice panics when that address has no colon.\<close>

definition master_http :: "string \<Rightarrow> string \<Rightarrow> string option" where
  "master_http masterAddr httpFlag =
    (if httpFlag = [] then map_option (\<lambda>host. host @ '':8443'') (before_last_colon masterAddr) else Some httpFlag)"

definition cli_main :: "'w send \<Rightarrow> string list \<Rightarrow> 'w \<Rightarrow> 'w cli" where
  "cli_main send input w =
    repl send \<lparr>cli_in = input, cli_out = [''=== Distributed Password Manager ==='' @ newline, ''Commands: register, login, exit'' @ newline],
      cli_user = [], cli_cookie = None, cli_world = w\<rparr>"

section \<open>The REST API at the other end\<close>

text \<open>Request number \<open>n\<close> has a fate and circumstances of its own; \<open>file\<close> is what a static file holds.\<close>

definition exchange ::
  "('a \<Rightarrow> string \<Rightarrow> string \<Rightarrow> 'u \<Rightarrow> string option \<times> 'u) \<Rightarrow> ('a \<Rightarrow> string \<Rightarrow> string \<Rightarrow> 'u \<Rightarrow> (string + bytes \<times> bytes) \<times> 'u)
    \<Rightarrow> bool \<Rightarrow> nat list \<Rightarrow> (nat \<Rightarrow> fate \<times> 'a http_env) \<Rightarrow> (nat \<times> 'u http_state) send" where
  "exchange reg login static file es r w =
    (let (n, s) = w; (fate, A) = es n; ((_, resp), s') = cors_middleware (serve reg login static A) r s;
         rp = \<lparr>rp_status = rs_status resp,
           rp_cookie = (case rs_cookie resp of Set_cookie v \<Rightarrow> Some v | Clear_cookie \<Rightarrow> Some [] | Keep_cookie \<Rightarrow> None),
           rp_body = reply_body file resp\<rparr>
     in case fate of
          Fine \<Rightarrow> (Inr rp, (Suc n, s'))
        | NoDial \<Rightarrow> (Inl ''dial'', (Suc n, s))
        | RequestLost \<Rightarrow> (Inl ''EOF'', (Suc n, s))
        | ReplyLost \<Rightarrow> (Inl ''EOF'', (Suc n, s')))"

section \<open>What the commands do\<close>

lemma cli_words:
  "trim_space ''register'' = ''register''" "trim_space ''login'' = ''login''" "trim_space ''save'' = ''save''"
  "trim_space ''get'' = ''get''" "trim_space ''list'' = ''list''" "trim_space ''delete'' = ''delete''" "trim_space ''logout'' = ''logout''"
  by (rule trim_space_id, simp add: is_space_def)+

lemma cli_commands:
  "string_fields ''register'' = [''register'']" "string_fields ''login'' = [''login'']" "string_fields ''save'' = [''save'']"
  "string_fields ''get'' = [''get'']" "string_fields ''list'' = [''list'']" "string_fields ''delete'' = [''delete'']"
  "string_fields ''logout'' = [''logout'']"
  by (rule string_fields_word, simp, simp add: is_space_def)+

lemma cli_line_commands:
  "cli_line send ''register'' c = (True, cli_register send c)" "cli_line send ''login'' c = (True, cli_login send c)"
  "cli_line send ''save'' c = (True, cli_save send c)" "cli_line send ''get'' c = (True, cli_get send ''get'' [''get''] c)"
  "cli_line send ''list'' c = (True, cli_list send c)"
  "cli_line send ''delete'' c = (True, cli_delete send ''delete'' [''delete''] c)" "cli_line send ''logout'' c = (True, cli_logout c)"
  by (simp_all add: cli_line_def cli_words cli_commands Let_def)

lemma cli_ask_line:
  "cli_in c = l # ls \<Longrightarrow> trim_space l = l \<Longrightarrow> cli_ask p c = (l, cli_print p c\<lparr>cli_in := ls\<rparr>)"
  by (simp add: cli_ask_def)

lemma repl_end: "cli_in c = [] \<Longrightarrow> repl send c = cli_print (cli_prompt c) c"
  by (subst repl.simps) simp

lemma repl_line:
  "cli_in c = l # ls \<Longrightarrow> cli_line send l (cli_print (cli_prompt c) c\<lparr>cli_in := ls\<rparr>) = (True, c') \<Longrightarrow> repl send c = repl send c'"
  by (subst repl.simps) simp

text \<open>The commands of the transcript below, when the server answers 200.\<close>

lemma repl_register:
  assumes "cli_in c = ''register'' # u # p # ls" "trim_space u = u" "trim_space p = p" "8 \<le> length p"
    and "api_register send (cli_cookie c) u p (cli_world c) = (None, w)"
  shows "repl send c = repl send (c\<lparr>cli_in := ls, cli_world := w,
    cli_out := cli_out c @ [cli_prompt c, ''Username: '', ''Master password: '', ''Registered successfully.'' @ newline]\<rparr>)"
  using assms
  by (subst repl_line) (auto simp: cli_line_commands cli_register_def Let_def cli_ask_line cli_print_def cli_println_def)

lemma repl_login:
  assumes "cli_in c = ''login'' # u # p # ls" "trim_space u = u" "trim_space p = p"
    and "api_login send (cli_cookie c) u p (cli_world c) = ((None, ck), w)"
  shows "repl send c = repl send (c\<lparr>cli_in := ls, cli_world := w, cli_cookie := ck, cli_user := u,
    cli_out := cli_out c @ [cli_prompt c, ''Username: '', ''Master password: '',
      ''Logged in. Commands: save, get, list, delete, logout'' @ newline]\<rparr>)"
  using assms
  by (subst repl_line) (auto simp: cli_line_commands cli_login_def Let_def cli_ask_line cli_print_def cli_println_def)

lemma repl_save:
  assumes "cli_in c = ''save'' # site # u # p # ls" "cli_user c \<noteq> []"
    and "trim_space site = site" "trim_space u = u" "trim_space p = p"
    and "api_save send (cli_cookie c) site u p (cli_world c) = (None, w)"
  shows "repl send c = repl send (c\<lparr>cli_in := ls, cli_world := w,
    cli_out := cli_out c @ [cli_prompt c, ''Site: '', ''Username: '', ''Password: '', ''Saved.'' @ newline]\<rparr>)"
  using assms
  by (subst repl_line) (auto simp: cli_line_commands cli_save_def Let_def cli_ask_line cli_print_def cli_println_def)

lemma fold_cli_print: "fold cli_print ls c = c\<lparr>cli_out := cli_out c @ ls\<rparr>"
  by (induction ls arbitrary: c) (simp_all add: cli_print_def)

lemma repl_get:
  assumes "cli_in c = ''get'' # site # ls" "cli_user c \<noteq> []" "trim_space site = site"
    and "api_get_entry send (cli_cookie c) site (cli_world c) = (Inr entry, w)"
  shows "repl send c = repl send (c\<lparr>cli_in := ls, cli_world := w,
    cli_out := cli_out c @ [cli_prompt c, ''Site: ''] @ entry_lines entry\<rparr>)"
  using assms
  by (subst repl_line)
    (auto simp: cli_line_commands cli_get_def cli_site_def Let_def cli_ask_line cli_print_def fold_cli_print)

section \<open>Requests and replies over the wire\<close>

lemma request_for_post [simp]:
  "CHR ''?'' \<notin> set path \<Longrightarrow> request_for ck m path body =
    \<lparr>rq_method = m, rq_path = path, rq_origin = [], rq_cookie = ck, rq_site = query_get ''site'' [], rq_body = body\<rparr>"
  by (simp add: request_for_def str_cut_none)

lemma request_for_site:
  assumes "CHR ''?'' \<notin> set path"
  shows "request_for ck m (path @ ''?site='' @ query_escape site) body =
    \<lparr>rq_method = m, rq_path = path, rq_origin = [], rq_cookie = ck, rq_site = site, rq_body = body\<rparr>"
proof -
  have "str_cut (CHR ''?'') (path @ ''?site='' @ query_escape site) = (path, ''site'' @ CHR ''='' # query_escape site)"
    using str_cut_here [OF assms, of "''site'' @ CHR ''='' # query_escape site"] by simp
  moreover have "query_get ''site'' (''site'' @ CHR ''='' # query_escape site) = site"
    by (rule query_get_escape) (simp_all add: unreserved_def)
  ultimately show ?thesis by (simp add: request_for_def)
qed

lemma decode_sorted_credentials:
  "rq_body r = string_of (encode_struct [(''password'', p), (''username'', u)]) \<Longrightarrow>
    decode_body [''username'', ''password''] r = Some ((\<lambda>_. [])(''password'' := coerce_utf8 p, ''username'' := coerce_utf8 u))"
  by (simp add: decode_body_def bytes_of_string_of)
     (subst unmarshal_encode_struct(2), simp_all add: write_fields_def)

lemma decode_sorted_entry:
  "rq_body r = string_of (encode_struct [(''password'', p), (''site'', site), (''username'', u)]) \<Longrightarrow>
    decode_body [''site'', ''username'', ''password''] r =
      Some ((\<lambda>_. [])(''password'' := coerce_utf8 p, ''site'' := coerce_utf8 site, ''username'' := coerce_utf8 u))"
  by (simp add: decode_body_def bytes_of_string_of)
     (subst unmarshal_encode_struct(2), simp_all add: write_fields_def)

lemma exchange_fine:
  assumes "fst (es n) = Fine" "rq_method r \<noteq> ''OPTIONS''" "serve reg login static (snd (es n)) r s = (resp, s')"
  shows "exchange reg login static file es r (n, s) =
    (Inr \<lparr>rp_status = rs_status resp,
       rp_cookie = (case rs_cookie resp of Set_cookie v \<Rightarrow> Some v | Clear_cookie \<Rightarrow> Some [] | Keep_cookie \<Rightarrow> None),
       rp_body = reply_body file resp\<rparr>, (Suc n, s'))"
proof (cases "es n")
  case (Pair f A)
  then show ?thesis using assms by (simp add: exchange_def cors_middleware_def Let_def)
qed

lemmas wire_simps = api_register_def api_login_def api_save_def api_get_entry_def api_post_def api_get_def

section \<open>Properties\<close>

definition cli_banner :: "string list" where
  "cli_banner = [''=== Distributed Password Manager ==='' @ newline, ''Commands: register, login, exit'' @ newline]"

lemma cli_main_eq: "cli_main send input w = repl send \<lparr>cli_in = input, cli_out = cli_banner, cli_user = [], cli_cookie = None, cli_world = w\<rparr>"
  by (simp add: cli_main_def cli_banner_def)

lemma cli_requests:
  assumes "kdf_ok K" "file_ok (ht_users s)" "keys_ok (he_auth (snd (es 0))) u (ht_users s)" "coerce_utf8 u = u"
    and "fst (auth_register K (he_auth (snd (es 0))) u p (ht_users s)) = None" "ae_read (he_auth (snd (es 1))) = None"
    and "all_fine en" "master_knows en (ht_world s) m c" "room (ht_world s)" "numbers_issued (ht_world s) m"
    and "readable en' (ht_world s) m"
    and "he_net (snd (es 2)) = (\<lambda>_. en)" "he_nonce (snd (es 2)) = Inr r" "12 \<le> length r" "he_net (snd (es 3)) = (\<lambda>_. en')"
    and "coerce_utf8 p = p" "utf8_password_entry e" "pe_site e \<noteq> []" "pe_username e \<noteq> []" "pe_password e \<noteq> []"
    and "\<forall>n. fst (es n) = Fine" "\<forall>x \<in> {u, p, pe_site e, pe_username e, pe_password e}. trim_space x = x"
    and "send = exchange (auth_register K) (auth_login K) static file es"
  shows "\<exists>ck w1 w2 w3 w4. api_register send None u p (0, s) = (None, w1) \<and> api_login send None u p w1 = ((None, Some ck), w2)
    \<and> api_save send (Some ck) (pe_site e) (pe_username e) (pe_password e) w2 = (None, w3)
    \<and> api_get_entry send (Some ck) (pe_site e) w3
      = (Inr [''site'' \<mapsto> pe_site e, ''username'' \<mapsto> pe_username e, ''password'' \<mapsto> pe_password e], w4)"
proof -
  let ?serve = "serve (auth_register K) (auth_login K) static"
  define ck where "ck = hex_string (take 16 (he_rand (snd (es 1))))"
  define qa where "qa = request_for None ''POST'' ''/auth/register'' (string_of (encode_struct [(''password'', p), (''username'', u)]))"
  define qb where "qb = request_for None ''POST'' ''/auth/login'' (string_of (encode_struct [(''password'', p), (''username'', u)]))"
  define qc where "qc = request_for (Some ck) ''POST'' ''/vault/save''
    (string_of (encode_struct [(''password'', pe_password e), (''site'', pe_site e), (''username'', pe_username e)]))"
  define qd where "qd = request_for (Some ck) ''GET'' (''/vault/get?site='' @ query_escape (pe_site e)) []"
  have qd: "qd = \<lparr>rq_method = ''GET'', rq_path = ''/vault/get'', rq_origin = [], rq_cookie = Some ck, rq_site = pe_site e, rq_body = []\<rparr>"
    using request_for_site [of "''/vault/get''"] by (simp add: qd_def)
  have bodies: "decode_body [''username'', ''password''] qa = Some ((\<lambda>_. [])(''password'' := p, ''username'' := u))"
    "decode_body [''username'', ''password''] qb = Some ((\<lambda>_. [])(''password'' := p, ''username'' := u))"
    "decode_body [''site'', ''username'', ''password''] qc
      = Some ((\<lambda>_. [])(''password'' := pe_password e, ''site'' := pe_site e, ''username'' := pe_username e))"
    using decode_sorted_credentials [of qa p u] decode_sorted_credentials [of qb p u]
      decode_sorted_entry [of qc "pe_password e" "pe_site e" "pe_username e"] assms(4,16,17)
    by (simp_all add: qa_def qb_def qc_def utf8_password_entry_def)
  have "\<exists>salt s1 s2 s3 s4. ?serve (snd (es 0)) qa s = (json_ok_reply (Message ''registered successfully''), s1)
    \<and> ?serve (snd (es 1)) qb s1 = ((json_ok_reply (Logged_in u salt))\<lparr>rs_cookie := Set_cookie ck\<rparr>, s2)
    \<and> ?serve (snd (es 2)) qc s2 = (json_ok_reply (Message ''saved''), s3)
    \<and> ?serve (snd (es 3)) qd s3 = (json_ok_reply (Entry e), s4)"
    unfolding ck_def
    by (rule session_flow [OF assms(1-15,17-20) _ _ bodies(1) _ _ _ _ bodies(2) _ _ _ _ bodies(3)])
       (simp_all add: qa_def qb_def qc_def qd ck_def)
  then obtain salt s1 s2 s3 s4 where flow:
    "?serve (snd (es 0)) qa s = (json_ok_reply (Message ''registered successfully''), s1)"
    "?serve (snd (es 1)) qb s1 = ((json_ok_reply (Logged_in u salt))\<lparr>rs_cookie := Set_cookie ck\<rparr>, s2)"
    "?serve (snd (es 2)) qc s2 = (json_ok_reply (Message ''saved''), s3)"
    "?serve (snd (es 3)) qd s3 = (json_ok_reply (Entry e), s4)" by blast
  have x: "send q (n, t) = (Inr \<lparr>rp_status = rs_status resp,
       rp_cookie = (case rs_cookie resp of Set_cookie v \<Rightarrow> Some v | Clear_cookie \<Rightarrow> Some [] | Keep_cookie \<Rightarrow> None),
       rp_body = reply_body file resp\<rparr>, (Suc n, t'))"
    if "?serve (snd (es n)) q t = (resp, t')" "rq_method q \<noteq> ''OPTIONS''" for n q t resp t'
    unfolding assms(23) using assms(21) that by (intro exchange_fine) simp_all
  have verb: "rq_method qa \<noteq> ''OPTIONS''" "rq_method qb \<noteq> ''OPTIONS''" "rq_method qc \<noteq> ''OPTIONS''" "rq_method qd \<noteq> ''OPTIONS''"
    by (simp_all add: qa_def qb_def qc_def qd)
  note sent = x [of 0, OF flow(1) verb(1)] x [of 1, OF flow(2) verb(2)] x [of 2, OF flow(3) verb(3)] x [of 3, OF flow(4) verb(4)]
  have trim: "trim_space (pe_site e) = pe_site e" using assms(22) by simp
  have "api_register send None u p (0, s) = (None, (Suc 0, s1))" "api_login send None u p (Suc 0, s1) = ((None, Some ck), (2, s2))"
    "api_save send (Some ck) (pe_site e) (pe_username e) (pe_password e) (2, s2) = (None, (3, s3))"
    "api_get_entry send (Some ck) (pe_site e) (3, s3)
      = (Inr [''site'' \<mapsto> pe_site e, ''username'' \<mapsto> pe_username e, ''password'' \<mapsto> pe_password e], (4, s4))"
    unfolding wire_simps trim qa_def [symmetric] qb_def [symmetric] qc_def [symmetric] qd_def [symmetric]
    using sent decode_map_entry [of "json_ok_reply (Entry e)" e "file"] assms(17)
    by (simp_all add: json_ok_reply_def utf8_password_entry_def)
  then show ?thesis by blast
qed

text \<open>Claim C22. From the keyboard to the disks and back: when registration goes through and the cluster is healthy, a user who
  types the commands to register, log in, save an entry and get it again sees exactly this transcript,
  which ends with the saved entry; lines are trimmed, and no field is empty.\<close>

theorem cli_transcript:
  assumes "kdf_ok K" "file_ok (ht_users s)" "keys_ok (he_auth (snd (es 0))) u (ht_users s)" "coerce_utf8 u = u"
    and "fst (auth_register K (he_auth (snd (es 0))) u p (ht_users s)) = None" "ae_read (he_auth (snd (es 1))) = None"
    and "all_fine en" "master_knows en (ht_world s) m c" "room (ht_world s)" "numbers_issued (ht_world s) m"
    and "readable en' (ht_world s) m"
    and "he_net (snd (es 2)) = (\<lambda>_. en)" "he_nonce (snd (es 2)) = Inr r" "12 \<le> length r" "he_net (snd (es 3)) = (\<lambda>_. en')"
    and "coerce_utf8 p = p" "utf8_password_entry e" "pe_site e \<noteq> []" "pe_username e \<noteq> []" "pe_password e \<noteq> []"
    and "\<forall>n. fst (es n) = Fine" "\<forall>x \<in> {u, p, pe_site e, pe_username e, pe_password e}. trim_space x = x"
  shows "cli_out (cli_main (exchange (auth_register K) (auth_login K) static file es)
      [''register'', u, p, ''login'', u, p, ''save'', pe_site e, pe_username e, pe_password e, ''get'', pe_site e] (0, s))
    = cli_banner
      @ [''> '', ''Username: '', ''Master password: '', ''Registered successfully.'' @ newline]
      @ [''> '', ''Username: '', ''Master password: '', ''Logged in. Commands: save, get, list, delete, logout'' @ newline]
      @ [''['' @ u @ ''] > '', ''Site: '', ''Username: '', ''Password: '', ''Saved.'' @ newline]
      @ [''['' @ u @ ''] > '', ''Site: '', ''  Site:     '' @ pe_site e @ newline, ''  Username: '' @ pe_username e @ newline,
         ''  Password: '' @ pe_password e @ newline]
      @ [''['' @ u @ ''] > '']"
proof -
  let ?send = "exchange (auth_register K) (auth_login K) static file es"
  have u: "u \<noteq> []" "8 \<le> length p" using auth_register_success [OF assms(5)] by simp_all
  have trim: "trim_space u = u" "trim_space p = p" "trim_space (pe_site e) = pe_site e" "trim_space (pe_username e) = pe_username e"
    "trim_space (pe_password e) = pe_password e" using assms(22) by simp_all
  obtain ck w1 w2 w3 w4 where api: "api_register ?send None u p (0, s) = (None, w1)" "api_login ?send None u p w1 = ((None, Some ck), w2)"
    "api_save ?send (Some ck) (pe_site e) (pe_username e) (pe_password e) w2 = (None, w3)"
    "api_get_entry ?send (Some ck) (pe_site e) w3
      = (Inr [''site'' \<mapsto> pe_site e, ''username'' \<mapsto> pe_username e, ''password'' \<mapsto> pe_password e], w4)"
    using cli_requests [OF assms refl] by blast
  show ?thesis
    using u by (simp add: cli_main_eq repl_register repl_login repl_save repl_get repl_end api trim cli_prompt_def entry_lines_def)
qed

theorem cli_transcript_witness:
  "cli_out (cli_main (exchange (auth_register toy_kdf) (auth_login toy_kdf) True [] (\<lambda>_. (Fine, example_http_env)))
      [''register'', ''bob'', ''longsecret'', ''login'', ''bob'', ''longsecret'', ''save'', pe_site example_entry,
       pe_username example_entry, pe_password example_entry, ''get'', pe_site example_entry] (0, example_site))
    = cli_banner
      @ [''> '', ''Username: '', ''Master password: '', ''Registered successfully.'' @ newline]
      @ [''> '', ''Username: '', ''Master password: '', ''Logged in. Commands: save, get, list, delete, logout'' @ newline]
      @ [''['' @ ''bob'' @ ''] > '', ''Site: '', ''Username: '', ''Password: '', ''Saved.'' @ newline]
      @ [''['' @ ''bob'' @ ''] > '', ''Site: '', ''  Site:     '' @ pe_site example_entry @ newline,
         ''  Username: '' @ pe_username example_entry @ newline, ''  Password: '' @ pe_password example_entry @ newline]
      @ [''['' @ ''bob'' @ ''] > '']"
proof (rule cli_transcript [where en = example_env and en' = example_env and m = example_master and c = example_primary
      and r = "replicate 12 5"])
  let ?es = "\<lambda>_ :: nat. (Fine, example_http_env)"
  show "kdf_ok toy_kdf" by (rule toy_kdf_ok)
  show "all_fine example_env" by (rule example_fine)
  show "coerce_utf8 ''longsecret'' = ''longsecret''" by (simp add: coerce_utf8_ascii)
  show "utf8_password_entry example_entry" by (rule example_entry_utf8)
  show "master_knows example_env (ht_world example_site) example_master example_primary"
    "room (ht_world example_site)" "numbers_issued (ht_world example_site) example_master"
    "readable example_env (ht_world example_site) example_master"
    by (simp_all add: example_site_def example_knows example_room example_issued example_readable)
  show "file_ok (ht_users example_site)" "keys_ok (he_auth (snd (?es 0))) ''bob'' (ht_users example_site)" "coerce_utf8 ''bob'' = ''bob''"
    "fst (auth_register toy_kdf (he_auth (snd (?es 0))) ''bob'' ''longsecret'' (ht_users example_site)) = None"
    using example_ready by (simp_all add: example_site_def example_http_env_def example_register)
  show "\<forall>x \<in> {''bob'', ''longsecret'', pe_site example_entry, pe_username example_entry, pe_password example_entry}. trim_space x = x"
    by (auto simp: example_entry_def is_space_def intro!: trim_space_id)
qed (simp_all add: example_http_env_def example_auth_env_def example_entry_def)

text \<open>A server that answers each request as it likes; the requests are recorded.\<close>

definition reply_of :: "nat list \<Rightarrow> response \<Rightarrow> reply" where
  "reply_of static resp = \<lparr>rp_status = rs_status resp, rp_cookie = None, rp_body = reply_body static resp\<rparr>"

definition served :: "nat list \<Rightarrow> (request \<Rightarrow> response) \<Rightarrow> request list send" where
  "served static answer q t = (Inr (reply_of static (answer q)), t @ [q])"

text \<open>Claim C23. What the client and the REST API exchange. Getting and deleting send the trimmed site name, whatever bytes it
  has, to the right endpoint, and saving sends the three fields; an entry, a list of sites or the message of an error that
  the server answers is what the client's function returns, up to bytes that are no UTF-8.\<close>

theorem wire_roundtrip:
  "let send = served file answer;
      get = \<lparr>rq_method = ''GET'', rq_path = ''/vault/get'', rq_origin = [], rq_cookie = ck, rq_site = trim_space site, rq_body = []\<rparr>;
      del = get\<lparr>rq_method := ''DELETE'', rq_path := ''/vault/delete''\<rparr>
    in snd (api_get_entry send ck site t) = t @ [get] \<and> snd (api_delete_entry send ck site t) = t @ [del]
    \<and> (\<exists>q. snd (api_save send ck s u p t) = t @ [q] \<and> rq_method q = ''POST'' \<and> rq_path q = ''/vault/save'' \<and> rq_cookie q = ck
        \<and> decode_body [''site'', ''username'', ''password''] q
          = Some ((\<lambda>_. [])(''password'' := coerce_utf8 p, ''site'' := coerce_utf8 s, ''username'' := coerce_utf8 u)))
    \<and> (answer get = json_ok_reply (Entry e) \<longrightarrow> fst (api_get_entry send ck site t)
        = Inr [''site'' \<mapsto> coerce_utf8 (pe_site e), ''username'' \<mapsto> coerce_utf8 (pe_username e), ''password'' \<mapsto> coerce_utf8 (pe_password e)])
    \<and> (answer get = json_error msg code \<and> code \<noteq> 200 \<longrightarrow> fst (api_get_entry send ck site t) = Inl (coerce_utf8 msg))
    \<and> (answer del = json_ok_reply (Message ''deleted'') \<longrightarrow> fst (api_delete_entry send ck site t) = None)
    \<and> (answer del = json_error msg code \<and> code \<noteq> 200 \<longrightarrow> fst (api_delete_entry send ck site t) = Some (coerce_utf8 msg))
    \<and> ((\<forall>q. answer q = json_ok_reply (Sites sites)) \<longrightarrow> fst (api_list send ck t) = Inr (map coerce_utf8 sites))"
proof -
  let ?send = "served file answer"
  let ?get = "\<lparr>rq_method = ''GET'', rq_path = ''/vault/get'', rq_origin = [], rq_cookie = ck, rq_site = trim_space site, rq_body = []\<rparr>"
  let ?del = "\<lparr>rq_method = ''DELETE'', rq_path = ''/vault/delete'', rq_origin = [], rq_cookie = ck, rq_site = trim_space site, rq_body = []\<rparr>"
  have get: "api_get_entry ?send ck site t = (if rs_status (answer ?get) \<noteq> 200 then Inl (api_failure ''get'' (reply_of file (answer ?get)))
      else let (m, bad) = decode_map (reply_body file (answer ?get)) in if bad then Inl ''json'' else Inr m, t @ [?get])"
    using request_for_site [of "''/vault/get''" ck "''GET''" "trim_space site" "[]"]
    by (simp add: api_get_entry_def api_get_def served_def reply_of_def Let_def split: prod.split)
  have del: "api_delete_entry ?send ck site t
      = (if rs_status (answer ?del) \<noteq> 200 then Some (api_failure ''delete'' (reply_of file (answer ?del))) else None, t @ [?del])"
    using request_for_site [of "''/vault/delete''" ck "''DELETE''" "trim_space site" "[]"]
    by (simp add: api_delete_entry_def api_delete_def served_def reply_of_def)
  have failure: "api_failure what (reply_of file (json_error msg code)) = coerce_utf8 msg" for what
    using decode_map_failure [of "json_error msg code" msg "file"] by (simp add: api_failure_def reply_of_def json_error_def)
  let ?q = "request_for ck ''POST'' ''/vault/save'' (string_of (encode_struct [(''password'', p), (''site'', s), (''username'', u)]))"
  have "snd (api_save ?send ck s u p t) = t @ [?q]" by (simp add: api_save_def api_post_def served_def)
  moreover have "rq_method ?q = ''POST'' \<and> rq_path ?q = ''/vault/save'' \<and> rq_cookie ?q = ck" by simp
  moreover have "decode_body [''site'', ''username'', ''password''] ?q
      = Some ((\<lambda>_. [])(''password'' := coerce_utf8 p, ''site'' := coerce_utf8 s, ''username'' := coerce_utf8 u))"
    by (rule decode_sorted_entry) simp
  moreover have "fst (api_list ?send ck t) = Inr (map coerce_utf8 sites)" if "\<forall>q. answer q = json_ok_reply (Sites sites)"
    using that decode_sites_reply [of "json_ok_reply (Sites sites)" sites "file"]
    by (simp add: api_list_def api_get_def served_def reply_of_def json_ok_reply_def)
  ultimately show ?thesis
    using decode_map_entry [of "json_ok_reply (Entry e)" e "file"]
    unfolding Let_def get del by (auto simp: failure) (simp_all add: json_ok_reply_def json_error_def)
qed

theorem wire_roundtrip_witness:
  "api_get_entry (served [] (\<lambda>q. if rq_site q = ''a&b=c d'' then json_ok_reply (Entry example_entry) else json_error ''entry not found'' 404))
      None ''a&b=c d'' []
    = (Inr [''site'' \<mapsto> pe_site example_entry, ''username'' \<mapsto> pe_username example_entry, ''password'' \<mapsto> pe_password example_entry],
       [\<lparr>rq_method = ''GET'', rq_path = ''/vault/get'', rq_origin = [], rq_cookie = None, rq_site = ''a&b=c d'', rq_body = []\<rparr>])"
proof -
  let ?answer = "\<lambda>q. if rq_site q = ''a&b=c d'' then json_ok_reply (Entry example_entry) else json_error ''entry not found'' 404"
  have "trim_space ''a&b=c d'' = ''a&b=c d''" by (rule trim_space_id) (simp add: is_space_def)
  then show ?thesis
    using wire_roundtrip [of "[]" ?answer None "''a&b=c d''" "[]" "[]" "[]" "[]" example_entry "[]" 404 "[]"] example_entry_utf8
    by (auto simp: Let_def utf8_password_entry_def intro!: prod_eqI)
qed

text \<open>Claim C27. Logging out of the client only forgets the name: it sends nothing, and although the client then refuses vault
  commands, it keeps the cookie, which the server still accepts for the user; the API's own logout would have
  ended the session.\<close>

theorem logout_keeps_session:
  assumes "cli_world c = (n, s)" "cli_cookie c = Some sid" "ht_sessions s sid = Some sess" "CHR ''?'' \<notin> set path"
  shows "let c' = snd (cli_line send ''logout'' c) in
    cli_user c' = [] \<and> cli_world c' = cli_world c
    \<and> (\<forall>l \<in> {''save'', ''get'', ''list'', ''delete''}. cli_world (snd (cli_line send l c')) = cli_world c
        \<and> last (cli_out (snd (cli_line send l c'))) = ''Please login first.'' @ newline)
    \<and> session_of (request_for (cli_cookie c') m path b) s = Some sess
    \<and> session_of (request_for (cli_cookie c') m path b)
        (snd (serve reg login static A (request_for (cli_cookie c') ''POST'' ''/auth/logout'' []) s)) = None"
proof -
  let ?q = "request_for (Some sid) ''POST'' ''/auth/logout'' []"
  have "serve reg login static A ?q s = http_logout ?q s"
    by (simp add: serve_def routes_def matches_def)
  then have "session_of (request_for (Some sid) m path b) (snd (serve reg login static A ?q s)) = None"
    using assms(4) by (simp add: http_logout_def session_of_def session_get_def session_delete_def)
  then show ?thesis
    using assms by (simp add: Let_def cli_line_commands cli_logout_def cli_save_def cli_get_def cli_list_def cli_delete_def
        cli_please_login_def session_of_def session_get_def)
qed

theorem logout_keeps_session_witness:
  "session_of (request_for (cli_cookie (snd (cli_line (exchange (auth_register toy_kdf) (auth_login toy_kdf) True [] (\<lambda>_. (Fine, example_http_env)))
        ''logout'' \<lparr>cli_in = [], cli_out = [], cli_user = ''bob'', cli_cookie = Some ''0a'',
          cli_world = (0, example_site\<lparr>ht_sessions := [''0a'' \<mapsto> \<lparr>hs_user = ''bob'', hs_key = [], hs_created = 0\<rparr>]\<rparr>)\<rparr>)))
      ''GET'' ''/vault/list'' []) (example_site\<lparr>ht_sessions := [''0a'' \<mapsto> \<lparr>hs_user = ''bob'', hs_key = [], hs_created = 0\<rparr>]\<rparr>)
    = Some \<lparr>hs_user = ''bob'', hs_key = [], hs_created = 0\<rparr>"
proof -
  let ?s = "example_site\<lparr>ht_sessions := [''0a'' \<mapsto> \<lparr>hs_user = ''bob'', hs_key = [], hs_created = 0\<rparr>]\<rparr>"
  let ?c = "\<lparr>cli_in = [], cli_out = [], cli_user = ''bob'', cli_cookie = Some ''0a'', cli_world = (0, ?s)\<rparr>"
  show ?thesis
    using logout_keeps_session [of ?c 0 ?s "''0a''" "\<lparr>hs_user = ''bob'', hs_key = [], hs_created = 0\<rparr>" "''/vault/list''"
        "exchange (auth_register toy_kdf) (auth_login toy_kdf) True [] (\<lambda>_. (Fine, example_http_env))" "''GET''" "[]"
        "auth_register toy_kdf" "auth_login toy_kdf" True example_http_env]
    by (simp add: Let_def)
qed

end
