(* ===== verification/Web_Server.thy ===== *)
theory Web_Server
  imports Http_Api
begin

text \<open>
  The stand-alone web server (\<open>cmd/web/main.go\<close>), a second front end to the same vault: it
  authenticates with JSON web tokens and keeps the vault keys of everyone who has logged in in
  memory. The token library \<open>golang-jwt\<close> and the router \<open>gorilla/mux\<close> are third-party and are
  parameters, bundled in a \<open>web_lib\<close>; of the router only its answer is used: which handler, and
  the variable \<open>site\<close> of the path. The middleware for cross-origin requests is not modelled.
\<close>

section \<open>Requests, answers and the state\<close>

record claims =
  cm_username :: string
  cm_expires :: time
  cm_issued :: time

datatype web_endpoint = Wep_register | Wep_login | Wep_save | Wep_get | Wep_list | Wep_delete

record web_lib =
  wl_route :: "(string \<times> string \<times> web_endpoint) list \<Rightarrow> string \<Rightarrow> string \<Rightarrow> nat + web_endpoint \<times> string"
  wl_sign :: "string \<Rightarrow> claims \<Rightarrow> string + string"
  wl_parse :: "time \<Rightarrow> string \<Rightarrow> string \<Rightarrow> claims option"

record web_request =
  wr_method :: string
  wr_path :: string
  wr_authorization :: string
  wr_body :: string

datatype web_body =
    Routed
  | Text string
  | Web_message string
  | Web_token string
  | Web_entry password_entry
  | Web_sites "string list"

record web_response =
  wp_status :: nat
  wp_body :: web_body

text \<open>The clock may be read more than once; \<open>we_clock A i\<close> is reading \<open>i\<close>.\<close>

record 'a web_env =
  we_clock :: "nat \<Rightarrow> time"
  we_auth :: 'a
  we_nonce :: "string + bytes"
  we_net :: "nat \<Rightarrow> env"

record 'u web_state =
  ws_users :: 'u
  ws_keys :: "string \<rightharpoonup> bytes"
  ws_world :: world

definition jwt_secret :: string where
  "jwt_secret = ''your-secret-key''"

definition http_error :: "string \<Rightarrow> nat \<Rightarrow> web_response" where
  "http_error msg code = \<lparr>wp_status = code, wp_body = Text msg\<rparr>"

definition web_ok :: "web_body \<Rightarrow> web_response" where
  "web_ok b = \<lparr>wp_status = 200, wp_body = b\<rparr>"

text \<open>A freshly started server: nobody's key is known.\<close>

definition web_start :: "'u \<Rightarrow> world \<Rightarrow> 'u web_state" where
  "web_start users w = \<lparr>ws_users = users, ws_keys = Map.empty, ws_world = w\<rparr>"

section \<open>Handlers\<close>

type_synonym 'u web_handler = "web_request \<Rightarrow> 'u web_state \<Rightarrow> web_response \<times> 'u web_state"

definition web_decode :: "string list \<Rightarrow> web_request \<Rightarrow> (string \<Rightarrow> string) option" where
  "web_decode names r = decode_struct names (bytes_of (wr_body r))"

definition web_register :: "(string \<Rightarrow> string \<Rightarrow> 'u \<Rightarrow> string option \<times> 'u) \<Rightarrow> 'u web_handler" where
  "web_register reg r s =
    (case web_decode [''username'', ''password''] r of
       None \<Rightarrow> (http_error ''Invalid request'' 400, s)
     | Some f \<Rightarrow>
         (case reg (f ''username'') (f ''password'') (ws_users s) of
            (Some err, us) \<Rightarrow> (http_error err 400, s\<lparr>ws_users := us\<rparr>)
          | (None, us) \<Rightarrow>
              (\<lparr>wp_status = 201, wp_body = Web_message ''Registered successfully''\<rparr>, s\<lparr>ws_users := us\<rparr>)))"

definition web_login ::
  "web_lib \<Rightarrow> (string \<Rightarrow> string \<Rightarrow> 'u \<Rightarrow> (string + bytes \<times> bytes) \<times> 'u) \<Rightarrow> 'a web_env \<Rightarrow> 'u web_handler" where
  "web_login L login A r s =
    (case web_decode [''username'', ''password''] r of
       None \<Rightarrow> (http_error ''Invalid request'' 400, s)
     | Some f \<Rightarrow>
         (case login (f ''username'') (f ''password'') (ws_users s) of
            (Inl err, us) \<Rightarrow> (http_error err 401, s\<lparr>ws_users := us\<rparr>)
          | (Inr (vaultKey, _), us) \<Rightarrow>
              let s = s\<lparr>ws_users := us, ws_keys := (ws_keys s)(f ''username'' \<mapsto> vaultKey)\<rparr>;
                  c = \<lparr>cm_username = f ''username'', cm_expires = we_clock A 0 + 24 * hour, cm_issued = we_clock A 1\<rparr>
              in (case wl_sign L jwt_secret c of
                    Inl _ \<Rightarrow> (http_error ''Failed to create token'' 500, s)
                  | Inr tokenString \<Rightarrow> (web_ok (Web_token tokenString), s))))"

text \<open>The middleware hands the name in the token to the handler, in a header of its own.\<close>

definition auth_middleware :: "web_lib \<Rightarrow> 'a web_env \<Rightarrow> (string \<Rightarrow> 'u web_handler) \<Rightarrow> 'u web_handler" where
  "auth_middleware L A next r s =
    (if wr_authorization r = [] then (http_error ''Missing token'' 401, s)
     else
       (case wl_parse L (we_clock A 0) jwt_secret (trim_prefix (wr_authorization r) ''Bearer '') of
          None \<Rightarrow> (http_error ''Invalid token'' 401, s)
        | Some c \<Rightarrow> next (cm_username c) r s))"

definition web_save :: "'a web_env \<Rightarrow> string \<Rightarrow> 'u web_handler" where
  "web_save A username r s =
    (case web_decode [''site'', ''username'', ''password''] r of
       None \<Rightarrow> (http_error ''Invalid request'' 400, s)
     | Some f \<Rightarrow>
         (case ws_keys s username of
            None \<Rightarrow> (http_error ''Not logged in'' 401, s)
          | Some vaultKey \<Rightarrow>
              (case vault_save (we_nonce A) (we_net A) (new_client vaultKey username)
                 \<lparr>pe_site = f ''site'', pe_username = f ''username'', pe_password = f ''password''\<rparr> (ws_world s) of
                 (Some err, w) \<Rightarrow> (http_error err 500, s\<lparr>ws_world := w\<rparr>)
               | (None, w) \<Rightarrow> (web_ok (Web_message ''Saved successfully''), s\<lparr>ws_world := w\<rparr>))))"

definition web_get :: "'a web_env \<Rightarrow> string \<Rightarrow> string \<Rightarrow> 'u web_handler" where
  "web_get A site username r s =
    (case ws_keys s username of
       None \<Rightarrow> (http_error ''Not logged in'' 401, s)
     | Some vaultKey \<Rightarrow>
         (case vault_get (we_net A) (new_client vaultKey username) site (ws_world s) of
            (Inl err, w) \<Rightarrow> (http_error err 500, s\<lparr>ws_world := w\<rparr>)
          | (Inr entry, w) \<Rightarrow> (web_ok (Web_entry entry), s\<lparr>ws_world := w\<rparr>)))"

definition web_list :: "'a web_env \<Rightarrow> string \<Rightarrow> 'u web_handler" where
  "web_list A username r s =
    (case ws_keys s username of
       None \<Rightarrow> (http_error ''Not logged in'' 401, s)
     | Some vaultKey \<Rightarrow>
         (case vault_list (we_net A 0) (new_client vaultKey username) (ws_world s) of
            (Inl err, w) \<Rightarrow> (http_error err 500, s\<lparr>ws_world := w\<rparr>)
          | (Inr sites, w) \<Rightarrow> (web_ok (Web_sites sites), s\<lparr>ws_world := w\<rparr>)))"

definition web_delete :: "'a web_env \<Rightarrow> string \<Rightarrow> string \<Rightarrow> 'u web_handler" where
  "web_delete A site username r s =
    (case ws_keys s username of
       None \<Rightarrow> (http_error ''Not logged in'' 401, s)
     | Some vaultKey \<Rightarrow>
         (case vault_delete (we_net A) (new_client vaultKey username) site (ws_world s) of
            (Some err, w) \<Rightarrow> (http_error err 500, s\<lparr>ws_world := w\<rparr>)
          | (None, w) \<Rightarrow> (web_ok (Web_message ''Deleted successfully''), s\<lparr>ws_world := w\<rparr>)))"

section \<open>Routing\<close>

definition web_routes :: "(string \<times> string \<times> web_endpoint) list" where
  "web_routes =
    [(''POST'', ''/register'', Wep_register), (''POST'', ''/login'', Wep_login), (''POST'', ''/save'', Wep_save),
     (''GET'', ''/get/{site}'', Wep_get), (''GET'', ''/list'', Wep_list), (''DELETE'', ''/delete/{site}'', Wep_delete)]"

fun run_web ::
  "web_lib \<Rightarrow> ('a \<Rightarrow> string \<Rightarrow> string \<Rightarrow> 'u \<Rightarrow> string option \<times> 'u)
    \<Rightarrow> ('a \<Rightarrow> string \<Rightarrow> string \<Rightarrow> 'u \<Rightarrow> (string + bytes \<times> bytes) \<times> 'u)
    \<Rightarrow> 'a web_env \<Rightarrow> web_endpoint \<Rightarrow> string \<Rightarrow> 'u web_handler" where
  "run_web L reg login A Wep_register site = web_register (reg (we_auth A))"
| "run_web L reg login A Wep_login site = web_login L (login (we_auth A)) A"
| "run_web L reg login A Wep_save site = auth_middleware L A (web_save A)"
| "run_web L reg login A Wep_get site = auth_middleware L A (web_get A site)"
| "run_web L reg login A Wep_list site = auth_middleware L A (web_list A)"
| "run_web L reg login A Wep_delete site = auth_middleware L A (web_delete A site)"

definition web_serve ::
  "web_lib \<Rightarrow> ('a \<Rightarrow> string \<Rightarrow> string \<Rightarrow> 'u \<Rightarrow> string option \<times> 'u)
    \<Rightarrow> ('a \<Rightarrow> string \<Rightarrow> string \<Rightarrow> 'u \<Rightarrow> (string + bytes \<times> bytes) \<times> 'u) \<Rightarrow> 'a web_env \<Rightarrow> 'u web_handler" where
  "web_serve L reg login A r s =
    (case wl_route L web_routes (wr_method r) (wr_path r) of
       Inl status \<Rightarrow> (\<lparr>wp_status = status, wp_body = Routed\<rparr>, s)
     | Inr (ep, site) \<Rightarrow> run_web L reg login A ep site r s)"

section \<open>What the third-party code promises\<close>

text \<open>A signed token is accepted for its user until its expiry, which is rounded to seconds.\<close>

definition web_lib_ok :: "web_lib \<Rightarrow> bool" where
  "web_lib_ok L \<longleftrightarrow> (\<forall>key c tok now. wl_sign L key c = Inr tok \<longrightarrow> coerce_utf8 (cm_username c) = cm_username c
     \<longrightarrow> now + second \<le> cm_expires c
     \<longrightarrow> (\<exists>c'. wl_parse L now key tok = Some c' \<and> cm_username c' = cm_username c))"

text \<open>A stand-in that fulfils this: a token that is the name, and routes by the fixed part of the path.\<close>

definition toy_lib :: web_lib where
  "toy_lib = \<lparr>wl_route = (\<lambda>rs m p. case find (\<lambda>(m', p', _). m = m' \<and> has_prefix p (takeWhile (\<lambda>c. c \<noteq> CHR ''{'') p')) rs of
       Some (_, p', ep) \<Rightarrow> Inr (ep, drop (length (takeWhile (\<lambda>c. c \<noteq> CHR ''{'') p')) p) | None \<Rightarrow> Inl 404),
     wl_sign = (\<lambda>key c. Inr (cm_username c)),
     wl_parse = (\<lambda>now key tok. Some \<lparr>cm_username = tok, cm_expires = 0, cm_issued = 0\<rparr>)\<rparr>"

lemma toy_lib_ok: "web_lib_ok toy_lib"
  by (simp add: web_lib_ok_def toy_lib_def)

section \<open>Lemmas\<close>

text \<open>The user a request is served for.\<close>

definition token_user :: "web_lib \<Rightarrow> 'a web_env \<Rightarrow> web_request \<Rightarrow> string option" where
  "token_user L A r =
    (if wr_authorization r = [] then None
     else map_option cm_username (wl_parse L (we_clock A 0) jwt_secret (trim_prefix (wr_authorization r) ''Bearer '')))"

lemma auth_middleware_eq:
  "auth_middleware L A next r s =
    (case token_user L A r of
       Some u \<Rightarrow> next u r s
     | None \<Rightarrow> (http_error (if wr_authorization r = [] then ''Missing token'' else ''Invalid token'') 401, s))"
  by (simp add: auth_middleware_def token_user_def split: option.split)

lemma token_user_signed:
  assumes "web_lib_ok L" "wl_sign L jwt_secret c = Inr tok" "coerce_utf8 (cm_username c) = cm_username c"
    and "we_clock A 0 + second \<le> cm_expires c" "wr_authorization r = ''Bearer '' @ tok"
  shows "token_user L A r = Some (cm_username c)"
proof -
  obtain c' where "wl_parse L (we_clock A 0) jwt_secret tok = Some c'" "cm_username c' = cm_username c"
    using assms(1-4) unfolding web_lib_ok_def by blast
  then show ?thesis using assms(5) trim_prefix_append [of "''Bearer ''" tok] by (simp add: token_user_def)
qed

lemma entry_key_under_name: "\<not> has_prefix k (u @ ''/'') \<Longrightarrow> k \<noteq> entry_key (new_client key u) site"
  by (auto simp: entry_key_def new_client_def has_prefix_def)

lemma web_handler_entries:
  assumes "\<not> has_prefix k (u @ ''/'')"
  shows "entries_at (ws_world (snd (web_save A u r s))) b k = entries_at (ws_world s) b k"
    and "entries_at (ws_world (snd (web_delete A site u r s))) b k = entries_at (ws_world s) b k"
    and "entries_at (ws_world (snd (web_get A site u r s))) b k = entries_at (ws_world s) b k"
    and "entries_at (ws_world (snd (web_list A u r s))) b k = entries_at (ws_world s) b k"
proof -
  note other = entry_key_under_name [OF assms]
  have save: "entries_at w' b k = entries_at w b k" if "vault_save rnd es (new_client key u) e w = (q, w')" for rnd es key e w q w'
    using that entries_vault_save [OF other] by (metis snd_conv)
  have del: "entries_at w' b k = entries_at w b k" if "vault_delete es (new_client key u) site' w = (q, w')" for es key site' w q w'
    using that entries_vault_delete [OF other] by (metis snd_conv)
  have get: "entries_at w' = entries_at w" if "vault_get es v site' w = (q, w')" for es v site' w q w'
    using entries_vault_get [of es v site' w] that by simp
  have list: "entries_at w' = entries_at w" if "vault_list en v w = (q, w')" for en v w q w'
    using entries_vault_list [of en v w] that by simp
  show "entries_at (ws_world (snd (web_save A u r s))) b k = entries_at (ws_world s) b k"
    by (auto simp: web_save_def save split: option.split prod.split)
  show "entries_at (ws_world (snd (web_delete A site u r s))) b k = entries_at (ws_world s) b k"
    by (auto simp: web_delete_def del split: option.split prod.split)
  show "entries_at (ws_world (snd (web_get A site u r s))) b k = entries_at (ws_world s) b k"
    by (auto simp: web_get_def get split: option.split prod.split sum.split)
  show "entries_at (ws_world (snd (web_list A u r s))) b k = entries_at (ws_world s) b k"
    by (auto simp: web_list_def list split: option.split prod.split sum.split)
qed

lemma web_auth_world [frame_simps]:
  "ws_world (snd (web_register reg' r s)) = ws_world s" "ws_world (snd (web_login L login' A r s)) = ws_world s"
  by (simp_all add: web_register_def web_login_def Let_def split: prod.split option.split sum.split)

lemma web_handler_no_key:
  assumes "ws_keys s u = None"
  shows "snd (web_save A u r s) = s" "snd (web_get A site u r s) = s" "snd (web_list A u r s) = s"
    "snd (web_delete A site u r s) = s" 
    "wp_status (fst (web_save A u r s)) = (if web_decode [''site'', ''username'', ''password''] r = None then 400 else 401)"
    "wp_status (fst (web_get A site u r s)) = 401" "wp_status (fst (web_list A u r s)) = 401"
    "wp_status (fst (web_delete A site u r s)) = 401"
  using assms by (simp_all add: web_save_def web_get_def web_list_def web_delete_def http_error_def split: option.split)

definition protected_endpoints :: "web_endpoint set" where
  "protected_endpoints = {Wep_save, Wep_get, Wep_list, Wep_delete}"

lemma run_web_entries:
  assumes "\<forall>u. token_user L A r = Some u \<longrightarrow> \<not> has_prefix k (u @ ''/'')"
  shows "entries_at (ws_world (snd (run_web L reg login A ep site r s))) b k = entries_at (ws_world s) b k"
  using assms
  by (cases ep) (auto simp: frame_simps auth_middleware_eq web_handler_entries split: option.split)

lemma run_web_unauthorised:
  assumes "ep \<in> protected_endpoints" "\<forall>u. token_user L A r = Some u \<longrightarrow> ws_keys s u = None"
  shows "snd (run_web L reg login A ep site r s) = s \<and> wp_status (fst (run_web L reg login A ep site r s)) \<in> {400, 401}"
  using assms
  by (cases ep) (auto simp: protected_endpoints_def auth_middleware_eq web_handler_no_key http_error_def split: option.split)

definition web_api :: "string \<Rightarrow> string \<Rightarrow> string \<Rightarrow> string \<Rightarrow> web_request" where
  "web_api m p a b = \<lparr>wr_method = m, wr_path = p, wr_authorization = a, wr_body = b\<rparr>"

section \<open>Signing up, and using the token\<close>

lemma web_decode_credentials:
  "web_decode [''username'', ''password''] (web_api m p a (credentials u pw))
    = Some ((\<lambda>_. [])(''username'' := coerce_utf8 u, ''password'' := coerce_utf8 pw))"
  using decode_credentials [of "api_request m p None [] (credentials u pw)" u pw]
  by (simp add: decode_body_def web_decode_def web_api_def)

lemma web_decode_entry:
  "web_decode [''site'', ''username'', ''password''] (web_api m p a (entry_body e))
    = Some ((\<lambda>_. [])(''site'' := coerce_utf8 (pe_site e), ''username'' := coerce_utf8 (pe_username e),
        ''password'' := coerce_utf8 (pe_password e)))"
  using decode_entry_body [of "api_request m p None [] (entry_body e)" e]
  by (simp add: decode_body_def web_decode_def web_api_def)

lemma web_save_entry:
  assumes "ws_keys s u = Some k" "utf8_password_entry e"
    and "vault_save (we_nonce A) (we_net A) (new_client k u) e (ws_world s) = (None, w)"
  shows "web_save A u (web_api m p a (entry_body e)) s = (web_ok (Web_message ''Saved successfully''), s\<lparr>ws_world := w\<rparr>)"
  using assms by (cases e) (simp add: web_save_def web_decode_entry utf8_password_entry_def)

context user_store_iface begin

lemma web_signup:
  assumes "ready (we_auth A) u (ws_users s)" "fine (we_auth B)" "fst (reg (we_auth A) u p (ws_users s)) = None"
    and utf8: "coerce_utf8 u = u" "coerce_utf8 p = p"
    and sign: "wl_sign L jwt_secret \<lparr>cm_username = u, cm_expires = we_clock B 0 + 24 * hour, cm_issued = we_clock B 1\<rparr> = Inr tok"
  shows "\<exists>k s1 s2.
    run_web L reg login A Wep_register [] (web_api ''POST'' ''/register'' [] (credentials u p)) s
      = (\<lparr>wp_status = 201, wp_body = Web_message ''Registered successfully''\<rparr>, s1)
    \<and> run_web L reg login B Wep_login [] (web_api ''POST'' ''/login'' [] (credentials u p)) s1
      = (web_ok (Web_token tok), s2)
    \<and> key_size_ok k \<and> ws_world s2 = ws_world s \<and> ws_keys s2 = (ws_keys s)(u \<mapsto> k)"
proof -
  obtain us1 where us1: "reg (we_auth A) u p (ws_users s) = (None, us1)"
    using assms(3) by (metis prod.collapse)
  obtain k salt where "fst (login (we_auth B) u p us1) = Inr (k, salt)" and k: "key_size_ok k"
    using login_after_reg [OF assms(1,2) us1] by blast
  then obtain us2 where us2: "login (we_auth B) u p us1 = (Inr (k, salt), us2)" by (metis prod.collapse)
  let ?s1 = "s\<lparr>ws_users := us1\<rparr>"
  let ?s2 = "?s1\<lparr>ws_users := us2, ws_keys := (ws_keys s)(u \<mapsto> k)\<rparr>"
  have "web_register (reg (we_auth A)) (web_api ''POST'' ''/register'' [] (credentials u p)) s
      = (\<lparr>wp_status = 201, wp_body = Web_message ''Registered successfully''\<rparr>, ?s1)"
    using us1 utf8 by (simp add: web_register_def web_decode_credentials)
  moreover have "web_login L (login (we_auth B)) B (web_api ''POST'' ''/login'' [] (credentials u p)) ?s1
      = (web_ok (Web_token tok), ?s2)"
    using us2 utf8 sign by (simp add: web_login_def web_decode_credentials Let_def)
  ultimately show ?thesis using k by (intro exI [of _ k] exI [of _ ?s1] exI [of _ ?s2]) simp
qed

end

section \<open>Properties\<close>

text \<open>Claim C24. Whatever a request to the web server holds, it changes only entries whose keys begin with the name in its
  valid token and a slash; and a vault request without a valid token, or with one of a user who has
  not logged in since the server started, is refused and changes nothing.\<close>

theorem web_requests_stay_in_namespace:
  assumes "\<forall>u. token_user L A r = Some u \<longrightarrow> \<not> has_prefix k (u @ ''/'')"
  shows "entries_at (ws_world (snd (web_serve L reg login A r s))) b k = entries_at (ws_world s) b k
    \<and> (wl_route L web_routes (wr_method r) (wr_path r) = Inr (ep, site) \<and> ep \<in> protected_endpoints
        \<and> (\<forall>u. token_user L A r = Some u \<longrightarrow> ws_keys s u = None)
       \<longrightarrow> snd (web_serve L reg login A r s) = s \<and> wp_status (fst (web_serve L reg login A r s)) \<in> {400, 401})"
  using run_web_entries [OF assms] run_web_unauthorised [of ep L A r s reg login site]
  by (auto simp: web_serve_def split: sum.split)

definition example_web_env :: "auth_env web_env" where
  "example_web_env = \<lparr>we_clock = (\<lambda>_. 0), we_auth = example_auth_env, we_nonce = Inr (replicate 12 5),
     we_net = (\<lambda>_. example_env)\<rparr>"

theorem web_requests_stay_in_namespace_witness:
  "snd (web_serve toy_lib (auth_register toy_kdf) (auth_login toy_kdf) example_web_env
      (web_api ''DELETE'' ''/delete/mail'' ''Bearer bob'' []) (web_start no_users example_world)) = web_start no_users example_world"
proof -
  let ?r = "web_api ''DELETE'' ''/delete/mail'' ''Bearer bob'' []"
  have "token_user toy_lib example_web_env ?r = Some ''bob''"
    by (simp add: token_user_def toy_lib_def web_api_def trim_prefix_def has_prefix_def)
  moreover have "\<not> has_prefix [] (''bob'' @ ''/'')" by (simp add: has_prefix_def)
  moreover have "wl_route toy_lib web_routes (wr_method ?r) (wr_path ?r) = Inr (Wep_delete, ''mail'')"
    by (simp add: toy_lib_def web_routes_def web_api_def has_prefix_def)
  ultimately show ?thesis
    using web_requests_stay_in_namespace [of toy_lib example_web_env ?r "[]" "auth_register toy_kdf" "auth_login toy_kdf"
        "web_start no_users example_world" _ Wep_delete "''mail''"]
    by (simp add: protected_endpoints_def web_start_def)
qed

text \<open>Claim C25. On the web server, registering, logging in, saving with the token that was returned and getting the site with it
  succeed in a healthy system and give back the saved entry; but after a restart of the server the same token,
  though still valid, is refused until the user logs in again.\<close>

theorem web_login_save_get:
  assumes "web_lib_ok L" "kdf_ok K" "file_ok (ws_users s)" "keys_ok (we_auth A1) u (ws_users s)" "coerce_utf8 u = u"
    and "coerce_utf8 p = p" "fst (auth_register K (we_auth A1) u p (ws_users s)) = None" "ae_read (we_auth A2) = None"
    and "wl_sign L jwt_secret \<lparr>cm_username = u, cm_expires = we_clock A2 0 + 24 * hour, cm_issued = we_clock A2 1\<rparr> = Inr tok"
    and "we_clock A3 0 + second \<le> we_clock A2 0 + 24 * hour" "we_clock A4 0 + second \<le> we_clock A2 0 + 24 * hour"
    and "all_fine en" "master_knows en (ws_world s) m c" "room (ws_world s)" "numbers_issued (ws_world s) m"
    and "readable en' (ws_world s) m"
    and "we_net A3 = (\<lambda>_. en)" "we_nonce A3 = Inr r" "12 \<le> length r" "we_net A4 = (\<lambda>_. en')" "utf8_password_entry e"
  shows "let run = run_web L (auth_register K) (auth_login K); bearer = ''Bearer '' @ tok;
      (r1, s1) = run A1 Wep_register [] (web_api ''POST'' ''/register'' [] (credentials u p)) s;
      (r2, s2) = run A2 Wep_login [] (web_api ''POST'' ''/login'' [] (credentials u p)) s1;
      (r3, s3) = run A3 Wep_save [] (web_api ''POST'' ''/save'' bearer (entry_body e)) s2;
      (r4, s4) = run A4 Wep_get (pe_site e) (web_api ''GET'' (''/get/'' @ pe_site e) bearer []) s3;
      (r5, s5) = run A4 Wep_get (pe_site e) (web_api ''GET'' (''/get/'' @ pe_site e) bearer []) (web_start (ws_users s4) (ws_world s4))
    in map wp_status [r1, r2, r3, r4, r5] = [201, 200, 200, 200, 401] \<and> wp_body r2 = Web_token tok
      \<and> wp_body r4 = Web_entry e \<and> wp_body r5 = Text ''Not logged in''"
proof -
  have ready: "kdf_ok K \<and> file_ok (ws_users s) \<and> keys_ok (we_auth A1) u (ws_users s) \<and> coerce_utf8 u = u"
    using assms(2-5) by simp
  obtain k s1 s2 where su:
    "run_web L (auth_register K) (auth_login K) A1 Wep_register [] (web_api ''POST'' ''/register'' [] (credentials u p)) s
      = (\<lparr>wp_status = 201, wp_body = Web_message ''Registered successfully''\<rparr>, s1)"
    "run_web L (auth_register K) (auth_login K) A2 Wep_login [] (web_api ''POST'' ''/login'' [] (credentials u p)) s1
      = (web_ok (Web_token tok), s2)"
    "key_size_ok k" "ws_world s2 = ws_world s" "ws_keys s2 = (ws_keys s)(u \<mapsto> k)"
    using auth.web_signup [OF ready assms(8,7,5,6,9)] by blast
  let ?v = "new_client k u"
  let ?w3 = "after_change en c m (put_op (entry_key ?v (pe_site e)) (sealed_entry r (vc_key ?v) e) (md_seq (ms_meta m) + 1)) (ws_world s)"
  have save: "vault_save (Inr r) (\<lambda>_. en) ?v e (ws_world s) = (None, ?w3)"
    and "fst (vault_get (\<lambda>_. en') ?v (pe_site e) ?w3) = Inr e"
    using save_then_read [OF assms(12-16), of ?v r e] su(3) assms(19,21) by (simp_all add: new_client_def)
  then obtain w4 where get: "vault_get (\<lambda>_. en') ?v (pe_site e) ?w3 = (Inr e, w4)" by (metis prod.collapse)
  have "token_user L A (web_api mm pp (''Bearer '' @ tok) b) = Some u" if "we_clock A 0 + second \<le> we_clock A2 0 + 24 * hour"
    for A :: "auth_env web_env" and mm pp b
    using token_user_signed [OF assms(1,9), of A "web_api mm pp (''Bearer '' @ tok) b"] assms(5) that by (simp add: web_api_def)
  note user = this [OF assms(10)] this [OF assms(11)]
  have "run_web L (auth_register K) (auth_login K) A3 Wep_save [] (web_api ''POST'' ''/save'' (''Bearer '' @ tok) (entry_body e)) s2
      = (web_ok (Web_message ''Saved successfully''), s2\<lparr>ws_world := ?w3\<rparr>)"
    using save assms(17,18,21) su(4,5) by (simp add: auth_middleware_eq user web_save_entry del: append.simps)
  moreover have "run_web L (auth_register K) (auth_login K) A4 Wep_get (pe_site e) (web_api mm pp (''Bearer '' @ tok) b) (s2\<lparr>ws_world := ?w3\<rparr>)
      = (web_ok (Web_entry e), s2\<lparr>ws_world := w4\<rparr>)" for mm pp b
    using get assms(20) su(5) by (simp add: auth_middleware_eq user web_get_def del: append.simps)
  moreover have "run_web L (auth_register K) (auth_login K) A4 Wep_get (pe_site e) (web_api mm pp (''Bearer '' @ tok) b) (web_start us w)
      = (http_error ''Not logged in'' 401, web_start us w)" for mm pp b us w
    by (simp add: auth_middleware_eq user web_get_def web_start_def del: append.simps)
  ultimately show ?thesis
    by (simp add: Let_def su(1,2) web_ok_def http_error_def del: append.simps run_web.simps)
qed

definition example_web :: "user_store web_state" where
  "example_web = web_start no_users example_world"

theorem web_login_save_get_witness:
  "let run = run_web toy_lib (auth_register toy_kdf) (auth_login toy_kdf); A = example_web_env; bearer = ''Bearer '' @ ''bob'';
      (r1, s1) = run A Wep_register [] (web_api ''POST'' ''/register'' [] (credentials ''bob'' ''longsecret'')) example_web;
      (r2, s2) = run A Wep_login [] (web_api ''POST'' ''/login'' [] (credentials ''bob'' ''longsecret'')) s1;
      (r3, s3) = run A Wep_save [] (web_api ''POST'' ''/save'' bearer (entry_body example_entry)) s2;
      (r4, s4) = run A Wep_get (pe_site example_entry) (web_api ''GET'' (''/get/'' @ pe_site example_entry) bearer []) s3;
      (r5, s5) = run A Wep_get (pe_site example_entry) (web_api ''GET'' (''/get/'' @ pe_site example_entry) bearer [])
        (web_start (ws_users s4) (ws_world s4))
    in map wp_status [r1, r2, r3, r4, r5] = [201, 200, 200, 200, 401] \<and> wp_body r2 = Web_token ''bob''
      \<and> wp_body r4 = Web_entry example_entry \<and> wp_body r5 = Text ''Not logged in''"
  unfolding Let_def [of example_web_env]
proof (rule web_login_save_get [where en = example_env and en' = example_env and m = example_master and c = example_primary
      and r = "replicate 12 5"])
  show "web_lib_ok toy_lib" by (rule toy_lib_ok)
  show "kdf_ok toy_kdf" by (rule toy_kdf_ok)
  show "all_fine example_env" by (rule example_fine)
  show "coerce_utf8 ''longsecret'' = ''longsecret''" by (simp add: coerce_utf8_ascii)
  show "utf8_password_entry example_entry" by (rule example_entry_utf8)
  show "master_knows example_env (ws_world example_web) example_master example_primary"
    "room (ws_world example_web)" "numbers_issued (ws_world example_web) example_master"
    "readable example_env (ws_world example_web) example_master"
    by (simp_all add: example_web_def web_start_def example_knows example_room example_issued example_readable)
  show "file_ok (ws_users example_web)" "keys_ok (we_auth example_web_env) ''bob'' (ws_users example_web)" "coerce_utf8 ''bob'' = ''bob''"
    "fst (auth_register toy_kdf (we_auth example_web_env) ''bob'' ''longsecret'' (ws_users example_web)) = None"
    using example_ready by (simp_all add: example_web_def web_start_def example_web_env_def example_register)
qed (simp_all add: example_web_env_def example_auth_env_def toy_lib_def)

text \<open>The web server accepts an entry without a site name, which no listing ever shows; the REST API refuses it with 400
  and stores nothing.\<close>

theorem empty_site_is_saved_unseen:
  assumes "all_fine en" "master_knows en (ws_world s) m c" "room (ws_world s)" "numbers_issued (ws_world s) m"
    and "readable en' (ws_world s) m"
    and "ws_keys s u = Some k" "key_size_ok k" "we_net A = (\<lambda>_. en)" "we_nonce A = Inr r" "12 \<le> length r"
    and "pe_site e = []" "utf8_password_entry e"
  shows "\<exists>s'. web_save A u (web_api ''POST'' ''/save'' a (entry_body e)) s = (web_ok (Web_message ''Saved successfully''), s')
    \<and> fst (vault_get (\<lambda>_. en') (new_client k u) [] (ws_world s')) = Inr e
    \<and> (\<forall>B q sites. wp_body (fst (web_list B u q s')) = Web_sites sites \<longrightarrow> [] \<notin> set sites)
    \<and> http_save H sess (api_request ''POST'' ''/vault/save'' ck [] (entry_body e)) hs
       = (json_error ''site, username and password required'' 400, hs)"
proof -
  let ?v = "new_client k u"
  let ?w = "after_change en c m (put_op (entry_key ?v (pe_site e)) (sealed_entry r (vc_key ?v) e) (md_seq (ms_meta m) + 1)) (ws_world s)"
  have save: "vault_save (Inr r) (\<lambda>_. en) ?v e (ws_world s) = (None, ?w)"
    and get: "fst (vault_get (\<lambda>_. en') ?v (pe_site e) ?w) = Inr e"
    using save_then_read [OF assms(1-5), of ?v r e] assms(7,10,12) by (simp_all add: new_client_def)
  have "web_save A u (web_api ''POST'' ''/save'' a (entry_body e)) s = (web_ok (Web_message ''Saved successfully''), s\<lparr>ws_world := ?w\<rparr>)"
    using save assms(6,8,9,12) by (intro web_save_entry) simp_all
  moreover have "[] \<notin> set sites" if "fst (vault_list n v w) = Inr sites" for n v w sites
    using that by (auto simp: vault_list_def Let_def split: prod.splits rpc_result.splits msg.splits if_splits)
  then have "[] \<notin> set sites" if "wp_body (fst (web_list B u q t)) = Web_sites sites" for B q t sites
    using that by (auto simp: web_list_def web_ok_def http_error_def split: option.splits prod.splits sum.splits) (metis fst_conv)
  moreover have "http_save H sess (api_request ''POST'' ''/vault/save'' ck [] (entry_body e)) hs
       = (json_error ''site, username and password required'' 400, hs)"
    using assms(11,12) by (simp add: http_save_def decode_entry_body utf8_password_entry_def)
  ultimately show ?thesis
    using get assms(11) by (intro exI [of _ "s\<lparr>ws_world := ?w\<rparr>"] conjI allI impI) (blast | simp)+
qed

definition nameless_entry :: password_entry where
  "nameless_entry = \<lparr>pe_site = [], pe_username = ''bob@mail'', pe_password = ''secret''\<rparr>"

theorem empty_site_is_saved_unseen_witness:
  "wp_status (fst (web_save example_web_env ''bob'' (web_api ''POST'' ''/save'' [] (entry_body nameless_entry))
    (example_web\<lparr>ws_keys := [''bob'' \<mapsto> replicate 32 7]\<rparr>))) = 200"
proof -
  let ?s = "example_web\<lparr>ws_keys := [''bob'' \<mapsto> replicate 32 7]\<rparr>"
  have "all_fine example_env" "master_knows example_env (ws_world ?s) example_master example_primary"
    "room (ws_world ?s)" "numbers_issued (ws_world ?s) example_master" "readable example_env (ws_world ?s) example_master"
    by (simp_all add: example_web_def web_start_def example_fine example_knows example_room example_issued example_readable)
  from empty_site_is_saved_unseen [OF this, where u = "''bob''" and k = "replicate 32 7" and A = example_web_env
      and r = "replicate 12 5" and e = nameless_entry and a = "[]" and H = example_http_env and hs = example_site and ck = None
      and sess = "\<lparr>hs_user = ''bob'', hs_key = [], hs_created = 0\<rparr>"]
  obtain s' where "web_save example_web_env ''bob'' (web_api ''POST'' ''/save'' [] (entry_body nameless_entry)) ?s
      = (web_ok (Web_message ''Saved successfully''), s')"
    by (auto simp: key_size_ok_def example_web_env_def nameless_entry_def utf8_password_entry_def coerce_utf8_ascii)
  then show ?thesis by (simp add: web_ok_def)
qed

text \<open>The signing key is a constant of the source: a token that anybody signs with it, without any password, opens the
  vault of every user who has logged in since the server started.\<close>

theorem known_secret_opens_vaults:
  assumes "web_lib_ok L" "wl_sign L ''your-secret-key'' c = Inr tok" "coerce_utf8 (cm_username c) = cm_username c"
    and "we_clock A 0 + second \<le> cm_expires c" "ws_keys s (cm_username c) = Some key"
    and "fst (vault_get (we_net A) (new_client key (cm_username c)) site (ws_world s)) = Inr e"
  shows "fst (run_web L reg login A Wep_get site (web_api ''GET'' (''/get/'' @ site) (''Bearer '' @ tok) []) s)
    = web_ok (Web_entry e)"
proof -
  have "token_user L A (web_api ''GET'' (''/get/'' @ site) (''Bearer '' @ tok) []) = Some (cm_username c)"
    using assms(1-4) by (intro token_user_signed) (simp_all add: jwt_secret_def web_api_def)
  then show ?thesis
    using assms(5,6) by (auto simp: auth_middleware_eq web_get_def split: prod.split)
qed

end
