(* ===== verification/Processes.thy ===== *)
theory Processes
  imports Cli Web_Server
begin

text \<open>
  The main functions of the four programs (\<open>cmd/chunkserver\<close>, \<open>cmd/master\<close>, \<open>cmd/web\<close> and
  \<open>cmd/client\<close>): what the flags select, which failures end the process before it serves, and what a started process consists
  of. The outcomes of the file operations and of opening the listeners are arguments.
\<close>

section \<open>Chunk servers\<close>

record chunk_flags =
  cf_id :: string
  cf_addr :: addr
  cf_regaddr :: addr
  cf_master :: addr

definition default_chunk_flags :: chunk_flags where
  "default_chunk_flags = \<lparr>cf_id = ''chunk1'', cf_addr = '':9001'', cf_regaddr = [], cf_master = ''localhost:9000''\<rparr>"

definition register_addr :: "chunk_flags \<Rightarrow> addr" where
  "register_addr f = (if cf_regaddr f = [] then cf_addr f else cf_regaddr f)"

text \<open>In the world a server is found under the address it registers. \<open>Start\<close> opens the listener before the
  server registers; an error of it ends the process.\<close>

definition chunk_main ::
  "(bytes \<Rightarrow> 'p option) \<Rightarrow> string + 'c \<Rightarrow> string + bytes \<Rightarrow> string option \<Rightarrow> (string \<Rightarrow> string option) \<Rightarrow> string list
    \<Rightarrow> (string \<rightharpoonup> entry content) \<Rightarrow> string option \<Rightarrow> chunk_flags \<Rightarrow> world \<Rightarrow> string + world" where
  "chunk_main parse_pem key_pair ca_file mkdir_err rd listing files listen_err f w =
    (case load_tls_config parse_pem key_pair ca_file True of
       Inl err \<Rightarrow> Inl (''TLS config: '' @ err)
     | Inr _ \<Rightarrow>
         (case start_chunk (cf_id f) (register_addr f) mkdir_err rd listing files w of
            Inl err \<Rightarrow> Inl (''Store init: '' @ err)
          | Inr w \<Rightarrow> (case listen_err of Some err \<Rightarrow> Inl err | None \<Rightarrow> Inr w)))"

section \<open>The master\<close>

record master_flags =
  mf_addr :: addr
  mf_http :: addr
  mf_primary :: string
  mf_static :: string

definition default_master_flags :: master_flags where
  "default_master_flags = \<lparr>mf_addr = '':9000'', mf_http = '':8443'', mf_primary = ''chunk1'', mf_static = ''./web/dist''\<rparr>"

record ('c, 'p) http_server =
  hv_addr :: addr
  hv_master_addr :: addr
  hv_tls :: "('c, 'p) tls_config"
  hv_users :: user_store
  hv_static :: string

record ('c, 'p) master_process =
  mp_server :: mserver
  mp_tls :: "('c, 'p) tls_config"
  mp_http :: "('c, 'p) http_server option"

text \<open>
  The REST API listens in the background, and an error of its listener is only logged; an error of the
  listener of \<open>Start\<close> ends the process, when the counter has been restored.
\<close>

definition master_main ::
  "(bytes \<Rightarrow> 'p option) \<Rightarrow> string + 'c \<Rightarrow> string + bytes \<Rightarrow> string option \<Rightarrow> bool \<Rightarrow> wal_entry list content option
    \<Rightarrow> string option \<Rightarrow> string option \<Rightarrow> users_doc \<Rightarrow> string option \<Rightarrow> string option \<Rightarrow> master_flags
    \<Rightarrow> string + ('c, 'p) master_process" where
  "master_main parse_pem key_pair ca_file mkdir_err wal_ok log_file users_mkdir_err users_read_err users http_listen_err listen_err f =
    (case mkdir_err of
       Some err \<Rightarrow> Inl (''Create data dir: '' @ err)
     | None \<Rightarrow>
       (case load_tls_config parse_pem key_pair ca_file True of
          Inl err \<Rightarrow> Inl (''TLS: '' @ err)
        | Inr tlsCfg \<Rightarrow>
          (case master_boot (mf_primary f) mkdir_err wal_ok log_file of
             Inl err \<Rightarrow> Inl (''WAL: '' @ err)
           | Inr srv \<Rightarrow>
             (case new_user_store users_mkdir_err users_read_err users of
                Inl err \<Rightarrow> Inl (''User store: '' @ err)
              | Inr userStore \<Rightarrow>
                (case listen_err of
                   Some err \<Rightarrow> Inl err
                 | None \<Rightarrow>
                Inr \<lparr>mp_server = srv, mp_tls = tlsCfg,
                  mp_http = (if mf_http f = [] \<or> http_listen_err \<noteq> None then None
                    else Some \<lparr>hv_addr = mf_http f, hv_master_addr = ''localhost'' @ mf_addr f, hv_tls = http_tls_config tlsCfg,
                      hv_users = userStore, hv_static = mf_static f\<rparr>)\<rparr>)))))"

section \<open>The stand-alone web server and the client\<close>

definition web_main ::
  "string option \<Rightarrow> string option \<Rightarrow> string option \<Rightarrow> users_doc \<Rightarrow> (bytes \<Rightarrow> 'p option) \<Rightarrow> string + 'c \<Rightarrow> string + bytes
    \<Rightarrow> string option \<Rightarrow> world \<Rightarrow> string + user_store web_state \<times> ('c, 'p) tls_config" where
  "web_main mkdir_err users_mkdir_err users_read_err users parse_pem key_pair ca_file listen_err w =
    (case mkdir_err of
       Some err \<Rightarrow> Inl (''Failed to create data directory:'' @ err)
     | None \<Rightarrow>
       (case new_user_store users_mkdir_err users_read_err users of
          Inl err \<Rightarrow> Inl (''Failed to initialize user store:'' @ err)
        | Inr userStore \<Rightarrow>
          (case load_tls_config parse_pem key_pair ca_file False of
             Inl err \<Rightarrow> Inl (''Failed to load TLS config:'' @ err)
           | Inr tlsConfig \<Rightarrow>
               (case listen_err of Some err \<Rightarrow> Inl err | None \<Rightarrow> Inr (web_start userStore w, tlsConfig)))))"

text \<open>The client sends its requests to the address it has worked out; a slice out of range is a panic.\<close>

definition client_main ::
  "(bytes \<Rightarrow> 'p option) \<Rightarrow> string + 'c \<Rightarrow> string + bytes \<Rightarrow> addr \<Rightarrow> addr \<Rightarrow> (addr \<Rightarrow> 'w send) \<Rightarrow> string list \<Rightarrow> 'w
    \<Rightarrow> string + 'w cli" where
  "client_main parse_pem key_pair ca_file masterAddr httpFlag send input w =
    (case master_http masterAddr httpFlag of
       None \<Rightarrow> Inl ''panic: slice bounds out of range''
     | Some masterHTTP \<Rightarrow>
       (case load_tls_config parse_pem key_pair ca_file False of
          Inl err \<Rightarrow> Inl (''TLS: '' @ err)
        | Inr _ \<Rightarrow> Inr (cli_main (send masterHTTP) input w)))"

section \<open>Lemmas\<close>

lemma load_tls_config_Inr:
  "load_tls_config parse_pem key_pair ca_file srv = Inr cfg \<longleftrightarrow>
    (\<exists>cert ca pool. key_pair = Inr cert \<and> ca_file = Inr ca \<and> parse_pem ca = Some pool
      \<and> cfg = \<lparr>tc_certificates = [cert], tc_min_version = 0x0304, tc_root_cas = Some pool, tc_server_name = ''localhost'',
          tc_client_cas = (if srv then Some pool else None),
          tc_client_auth = (if srv then Require_and_verify_client_cert else No_client_cert)\<rparr>)"
  by (auto simp: load_tls_config_def Let_def split: sum.split option.split)

lemma master_boot_None: "\<exists>s. master_boot p None ok f = Inr s"
  by (simp add: master_boot_def new_wal_def)

lemma master_main_Inr:
  assumes "master_main parse_pem key_pair ca_file mkdir_err wal_ok log_file users_mkdir_err users_read_err users http_listen_err listen_err f = Inr mp"
  obtains cfg us where "mkdir_err = None" "load_tls_config parse_pem key_pair ca_file True = Inr cfg"
    "master_boot (mf_primary f) None wal_ok log_file = Inr (mp_server mp)" "users_mkdir_err = None" "listen_err = None"
    "mp_tls mp = cfg" "mp_http mp = (if mf_http f = [] \<or> http_listen_err \<noteq> None then None
       else Some \<lparr>hv_addr = mf_http f, hv_master_addr = ''localhost'' @ mf_addr f, hv_tls = http_tls_config cfg,
         hv_users = us, hv_static = mf_static f\<rparr>)"
  using assms
  by (auto simp: master_main_def new_user_store_def split: option.splits sum.splits if_splits)

lemma server_name_localhost:
  assumes "CHR '':'' \<notin> set port" "CHR ''['' \<notin> set port" "CHR '']'' \<notin> set port"
  shows "tc_server_name (prepare_client_tls_config cfg (''localhost'' @ CHR '':'' # port)) = ''localhost''"
proof -
  have "split_host_port (''localhost'' @ CHR '':'' # port) = Some (''localhost'', port)"
    using assms by (intro split_host_port_plain) auto
  then show ?thesis by (simp add: prepare_server_name Let_def)
qed

lemma no_primary_at_start:
  "ms_registry s = new_registry \<Longrightarrow> handle_get_primary ids s = (Answer (GetPrimaryResponse [] [] 0), s)"
  by (simp add: handle_get_primary_def new_registry_def)

lemma master_started:
  assumes "master_main parse_pem key_pair ca_file mkdir_err wal_ok log_file users_mkdir_err users_read_err users http_listen_err listen_err f = Inr mp"
  shows "(mkdir_err = None \<and> users_mkdir_err = None \<and> listen_err = None \<and> (\<exists>cfg. load_tls_config parse_pem key_pair ca_file True = Inr cfg))
      \<and> handle_get_primary ids (mp_server mp) = (Answer (GetPrimaryResponse [] [] 0), mp_server mp)
      \<and> (\<forall>x \<in> set (wal_ops (ms_wal (mp_server mp))). op_seq x \<le> current_seq_num (ms_meta (mp_server mp)))
      \<and> tc_client_auth (mp_tls mp) = Require_and_verify_client_cert
      \<and> (mp_http mp = None \<longleftrightarrow> mf_http f = [] \<or> http_listen_err \<noteq> None)
      \<and> (\<forall>h. mp_http mp = Some h \<longrightarrow> hv_tls h = http_tls_config (mp_tls mp) \<and> hv_master_addr h = ''localhost'' @ mf_addr f
          \<and> tc_root_cas (mp_tls mp) = tc_client_cas (mp_tls mp))"
proof (rule master_main_Inr [OF assms], goal_cases)
  case (1 cfg us)
  have "ms_registry (mp_server mp) = new_registry" "current_seq_num (ms_meta (mp_server mp)) = max_seq_num (ms_wal (mp_server mp))"
    using master_boot_state [OF 1(3)] by simp_all
  then show ?case
    using 1 no_primary_at_start [of "mp_server mp" ids] by (auto simp: load_tls_config_Inr wal_ops_max)
qed

text \<open>The REST API's vault clients connect to the master's own port.\<close>

lemma rest_client_tls:
  assumes "master_main parse_pem key_pair ca_file mkdir_err wal_ok log_file users_mkdir_err users_read_err users http_listen_err listen_err f = Inr mp" "mp_http mp = Some h"
  shows "tc_client_auth (hv_tls h) = No_client_cert"
    "tc_certificates (prepare_client_tls_config (hv_tls h) (hv_master_addr h)) = tc_certificates (mp_tls mp)"
    "tc_root_cas (prepare_client_tls_config (hv_tls h) (hv_master_addr h)) = tc_client_cas (mp_tls mp)"
    "mf_addr f = CHR '':'' # port \<and> CHR '':'' \<notin> set port \<and> CHR ''['' \<notin> set port \<and> CHR '']'' \<notin> set port
      \<Longrightarrow> tc_server_name (prepare_client_tls_config (hv_tls h) (hv_master_addr h)) = ''localhost''"
proof -
  have h: "hv_tls h = http_tls_config (mp_tls mp)" "hv_master_addr h = ''localhost'' @ mf_addr f"
    "tc_root_cas (mp_tls mp) = tc_client_cas (mp_tls mp)"
    using master_started [OF assms(1), of "[]"] assms(2) by blast+
  show "tc_client_auth (hv_tls h) = No_client_cert"
    "tc_certificates (prepare_client_tls_config (hv_tls h) (hv_master_addr h)) = tc_certificates (mp_tls mp)"
    "tc_root_cas (prepare_client_tls_config (hv_tls h) (hv_master_addr h)) = tc_client_cas (mp_tls mp)"
    by (simp_all add: h prepare_keeps http_tls_config_def)
  assume "mf_addr f = CHR '':'' # port \<and> CHR '':'' \<notin> set port \<and> CHR ''['' \<notin> set port \<and> CHR '']'' \<notin> set port"
  then show "tc_server_name (prepare_client_tls_config (hv_tls h) (hv_master_addr h)) = ''localhost''"
    unfolding h(1,2) by (elim conjE) (erule ssubst, rule server_name_localhost)
qed

section \<open>Properties\<close>

text \<open>Claim C28. The master starts exactly when its directories can be made, its certificates load and its port can be opened;
  what it reads of the log and of the users never stops it, and neither does the port of the REST API. Started, it names no primary and uses
  up no number until servers have registered, and counts on from a number that no logged operation exceeds. Its port demands
  a client certificate and the REST API asks for none; the vault clients of the REST API reach the master's
  port under the name \<open>localhost\<close>, with the certificate and against the pool that this port uses itself.\<close>

theorem master_start_up:
  "let run = master_main parse_pem key_pair ca_file mkdir_err wal_ok log_file users_mkdir_err users_read_err users http_listen_err listen_err f in
    ((\<exists>mp. run = Inr mp) \<longleftrightarrow>
      mkdir_err = None \<and> users_mkdir_err = None \<and> listen_err = None \<and> (\<exists>cfg. load_tls_config parse_pem key_pair ca_file True = Inr cfg))
    \<and> (\<forall>mp. run = Inr mp \<longrightarrow>
        handle_get_primary ids (mp_server mp) = (Answer (GetPrimaryResponse [] [] 0), mp_server mp)
        \<and> (\<forall>x \<in> set (wal_ops (ms_wal (mp_server mp))). op_seq x \<le> current_seq_num (ms_meta (mp_server mp)))
        \<and> tc_client_auth (mp_tls mp) = Require_and_verify_client_cert
        \<and> (mp_http mp = None \<longleftrightarrow> mf_http f = [] \<or> http_listen_err \<noteq> None)
        \<and> (\<forall>h. mp_http mp = Some h \<longrightarrow> tc_client_auth (hv_tls h) = No_client_cert
            \<and> tc_certificates (prepare_client_tls_config (hv_tls h) (hv_master_addr h)) = tc_certificates (mp_tls mp)
            \<and> tc_root_cas (prepare_client_tls_config (hv_tls h) (hv_master_addr h)) = tc_client_cas (mp_tls mp)
            \<and> (mf_addr f = CHR '':'' # port \<and> CHR '':'' \<notin> set port \<and> CHR ''['' \<notin> set port \<and> CHR '']'' \<notin> set port
               \<longrightarrow> tc_server_name (prepare_client_tls_config (hv_tls h) (hv_master_addr h)) = ''localhost'')))"
proof -
  let ?run = "master_main parse_pem key_pair ca_file mkdir_err wal_ok log_file users_mkdir_err users_read_err users http_listen_err listen_err f"
  have starts: "\<exists>mp. ?run = Inr mp"
    if "mkdir_err = None" "users_mkdir_err = None" "listen_err = None" "load_tls_config parse_pem key_pair ca_file True = Inr cfg" for cfg
    using that master_boot_None [of "mf_primary f" wal_ok log_file] by (auto simp: master_main_def new_user_store_def)
  note started = master_started [where ids = ids]
  have iff: "(\<exists>mp. ?run = Inr mp) \<longleftrightarrow>
      mkdir_err = None \<and> users_mkdir_err = None \<and> listen_err = None \<and> (\<exists>cfg. load_tls_config parse_pem key_pair ca_file True = Inr cfg)"
  proof
    assume "\<exists>mp. ?run = Inr mp"
    then obtain mp where "?run = Inr mp" ..
    from started [OF this] show "mkdir_err = None \<and> users_mkdir_err = None \<and> listen_err = None \<and> (\<exists>cfg. load_tls_config parse_pem key_pair ca_file True = Inr cfg)" by (rule conjunct1)
  qed (use starts in blast)
  show ?thesis
    unfolding Let_def
  proof (intro conjI allI impI, goal_cases)
    case 1
    show ?case by (rule iff)
  next
    case (2 mp)
    from started [OF 2] show ?case by simp
  next
    case (3 mp)
    from started [OF 3] show ?case by simp
  next
    case (4 mp)
    from started [OF 4] show ?case by simp
  next
    case (5 mp)
    from started [OF 5] show ?case by simp
  qed (rule rest_client_tls, assumption+)+
qed

theorem master_start_up_witness:
  "\<exists>mp h. master_main (\<lambda>b. if b = [] then None else Some b) (Inr ()) (Inr [1]) None True None None None Absent None None default_master_flags
      = Inr mp \<and> mp_http mp = Some h \<and> tc_client_auth (mp_tls mp) = Require_and_verify_client_cert
    \<and> tc_server_name (prepare_client_tls_config (hv_tls h) (hv_master_addr h)) = ''localhost''"
proof -
  let ?run = "master_main (\<lambda>b :: bytes. if b = [] then None else Some b) (Inr () :: string + unit) (Inr [1]) None True None None None Absent None None default_master_flags"
  have "\<exists>cfg. load_tls_config (\<lambda>b :: bytes. if b = [] then None else Some b) (Inr () :: string + unit) (Inr [1]) True = Inr cfg"
    by (simp add: load_tls_config_Inr)
  note all = master_start_up [of "\<lambda>b. if b = [] then None else Some b" "Inr ()" "Inr [1]" None True None None None Absent None None
      default_master_flags "[]" "''9000''", unfolded Let_def]
  then obtain mp where mp: "?run = Inr mp"
    using \<open>\<exists>cfg. _\<close> by blast
  then have "mp_http mp \<noteq> None" using all by (auto simp: default_master_flags_def)
  then obtain h where "mp_http mp = Some h" by blast
  then show ?thesis using all mp by (auto simp: default_master_flags_def)
qed

text \<open>The client's address of the REST API when it is not given.\<close>

theorem master_http_needs_a_port:
  "(master_http addr [] = None \<longleftrightarrow> CHR '':'' \<notin> set addr)
    \<and> (CHR '':'' \<notin> set port \<longrightarrow> master_http (host @ CHR '':'' # port) [] = Some (host @ '':8443''))"
proof -
  have "dropWhile (\<lambda>c. c \<noteq> CHR '':'') (rev port @ CHR '':'' # rev host) = CHR '':'' # rev host" if "CHR '':'' \<notin> set port"
    using that by (subst dropWhile_append2) auto
  then show ?thesis by (auto simp: master_http_def before_last_colon_def)
qed

end
