(* ===== verification/Spec2Isabelle.thy ===== *)
theory Spec2Isabelle
  imports Processes
begin

text \<open>
  A verification library for the distributed password manager.

  \<^bold>\<open>The program.\<close> A master process (\<open>cmd/master\<close>, \<open>pkg/master\<close>) hands out sequence numbers, knows which
  chunk servers are alive, keeps a write-ahead log and offers a REST API. Chunk servers
  (\<open>cmd/chunkserver\<close>, \<open>pkg/chunk\<close>) keep encrypted entries in memory and on disk; the primary
  replicates to the others. The vault client (\<open>pkg/vault\<close>) encrypts an entry, asks the master for the
  primary and a number, writes to the primary and then tells the master, which logs the write. A chunk
  server that starts registers with the master and receives the logged operations above the
  highest number it holds. The REST API (\<open>pkg/master/http.go\<close>) and the stand-alone web server
  (\<open>cmd/web\<close>) run vault clients on behalf of users, authenticated by a session cookie or a token
  against the accounts of \<open>pkg/auth\<close>. The command line client (\<open>cmd/client\<close>) talks to the REST API.

  \<^bold>\<open>Theories, bottom up.\<close> Definitions keep the names of the Go functions, in lower case with underscores.

  \<^item> \<open>Prelude\<close>: the Go types, orders of map iteration, the interface \<open>codec\<close> of everything that is
    encoded and decoded. \<open>Disk\<close>: files that JSON wrote, and writes that fail or tear.
  \<^item> \<open>Go_Text\<close>, \<open>Go_Strings\<close>, \<open>Json\<close>: what the program uses of \<open>fmt\<close>, \<open>strings\<close>, \<open>net/url\<close>,
    \<open>unicode/utf8\<close> and \<open>encoding/json\<close>, on bytes.
  \<^item> \<open>Filenames\<close>, \<open>Chunk_Store\<close> (\<open>pkg/chunk/store.go\<close>): names of the entries' files; the store
    \<open>store\<close> with \<open>put\<close>, \<open>delete\<close>, \<open>get\<close>, loading. \<open>Versions\<close> is its specification, last writer wins, with
    the interfaces \<open>replica\<close> and \<open>recovery\<close>.
  \<^item> \<open>Messages\<close> (\<open>pkg/protocol\<close>): the message types and the fate of one request (\<open>rpc\<close>).
    \<open>Chunk_Server\<close> (\<open>pkg/chunk/server.go\<close>): its handlers, replication and registration.
  \<^item> \<open>Wal\<close>, \<open>Metadata\<close>, \<open>Registry\<close>, \<open>Master_Server\<close> (\<open>pkg/master\<close>): the log, the sequence counter, the
    registered servers and their health, the handlers, start-up, and \<open>master_step\<close>, one connection
    or one tick of the monitor.
  \<^item> \<open>Cluster\<close>: all processes together, \<open>world\<close>; processes that stop and start again. \<open>Replication\<close> and
    \<open>System\<close>: what whole writes, deletions and registrations do. \<open>Protocol\<close>: any
    number of requests at once, as the step relation \<open>proto_step\<close> over tasks, with \<open>fault_step\<close> for
    requests that are lost.
  \<^item> \<open>Aes_Gcm\<close>, \<open>Crypto\<close>, \<open>Tls\<close> (\<open>pkg/crypto\<close>): AES-GCM on words and \<open>encrypt\<close>, \<open>decrypt\<close>; hashes and
    keys; TLS configurations and server names.
  \<^item> \<open>Auth\<close> (\<open>pkg/auth\<close>): accounts in memory and in their file. \<open>Vault\<close> (\<open>pkg/vault\<close>): the client's four
    operations over the \<open>world\<close>, and what they come to after a restart of the master.
  \<^item> \<open>Http_Api\<close> (\<open>pkg/master/http.go\<close>): sessions, middleware, handlers, routing: \<open>serve\<close>. \<open>Replies\<close>: the bodies
    of its replies and what a client decodes. \<open>Cli\<close> (\<open>cmd/client\<close>): the HTTP client and the
    command loop \<open>repl\<close>. \<open>Web_Server\<close> (\<open>cmd/web\<close>): tokens, handlers, routing: \<open>web_serve\<close>.
  \<^item> \<open>Processes\<close>: the main functions of the four programs, as functions from flags and the outcomes of
    the file operations and of opening the listening port to the started process or the error that ends it.

  \<^bold>\<open>State and effects.\<close> State is passed explicitly. What a goroutine does under one lock is one
  definition. Everything the environment decides, the clock, map orders, random bytes, what a disk
  write or a request comes to, is an argument (\<open>env\<close>, \<open>auth_env\<close>, \<open>http_env\<close>, \<open>web_env\<close>), so a
  statement about all arguments is about all behaviours. Handlers that call other processes
  while they run (\<open>handle_write\<close>, \<open>handle_delete\<close>) are written over any state of the rest of the
  system. Sequence numbers and the read counter are 64-bit words. Errors are values; the
  text of an error of the operating system or a library is left abstract or shortened.

  \<^bold>\<open>What the lemmas show.\<close>

  \<^item> Consistency: with fresh numbers (fewer than \<open>2 ^ 64\<close> of them), and whatever interleaving and loss
    of requests, no number names two operations on a key, no server goes back to an older version,
    and servers that received the same operations agree. A healthy write reaches every alive
    server; under failures a write is either refused or stored at the primary. Stores refine
    the last-writer-wins map and survive restarts.
  \<^item> Recovery: what a registering server gets closes its gap when what it lacks is above its
    highest number, and does not otherwise; the registration loop ends with the first answer. After a
    restart of the master and the registration of all servers a save with a number the primary already
    holds is reported as done and lost.
  \<^item> Secrecy of names and accounts: a request, of either server, only touches keys of its user;
    accounts are not overwritten; sessions end by logout or after a day; decryption accepts
    exactly the texts that encryption with the same key produces for some nonce.
  \<^item> End to end: what a user saves through the REST API, the web server or the command line
    is what the user gets back, from the typed line through JSON, AES-GCM, the cluster and back.
  \<^item> Codecs: file names, log, user file, entries, JSON structs, URL queries and reply bodies decode to
    what was encoded, under conditions that are shown to be needed where they are: keys that spell an
    escape share a file with another key.

  Interfaces between components are the locales \<open>codec\<close>, \<open>replica\<close>, \<open>recovery\<close>, \<open>chunk_network\<close> and
  \<open>user_store_iface\<close>, each interpreted on the model of the code that provides it.

  \<^bold>\<open>Bounds and fuel.\<close> The JSON decoder runs on fuel, \<open>fuel_for b = 2 * length b + 2\<close>: every call of the
  parser that does not consume a byte is followed by one that does, and \<open>parse_fuel\<close> shows
  that no more fuel changes a result. The loop of the registration takes the list of its
  attempts; \<open>registration_ends_when_answered\<close> shows that the first one that is answered ends it. The command loop recurses on its input, every loop over a map or
  a list on that list. \<open>reads_go_round_robin\<close> holds for the first \<open>2 ^ 63 - 1\<close> reads; the counter is
  then negative as an \<open>int\<close> and the handler panics (\<open>round_robin_counter_can_crash\<close>).

  \<^bold>\<open>Parameters.\<close> bcrypt and PBKDF2 (\<open>kdf\<close>, with \<open>kdf_ok\<close>: a hash checks against the
  password it was made from, and a derived key has the length asked for), the token library and the router of
  the web server (\<open>web_lib\<close>, with \<open>web_lib_ok\<close>: a signed token is parsed back until it expires; where a
  statement relies on the router, its answers are hypotheses), and the parser of PEM certificates. Each hypothesis has an instance in the development.

  \<^bold>\<open>Not modelled.\<close> The bytes of gob and of TLS records and the checking of certificates: a request
  arrives intact, fails, or loses its reply. The decoder's nesting limit of 10000, the 64 KB limit on a
  typed line, GCM's limit of 64 GB. Static files, the cross-origin middleware of \<open>cmd/web\<close> (third-party),
  log output, time-outs. Requests to the HTTP servers are handled one at a time: their only
  shared state outside locks is the map of vault keys in \<open>cmd/web\<close>, which the code does not lock either.
  The loops that only wait, accept connections or send the next heartbeat (their bodies are
  modelled; the retries of the registration are \<open>register_with_master\<close>). The React front end, scripts and certificates.
\<close>

end
